theory Spec2Isabelle
  imports Complex_Main "HOL-Library.Sublist"
begin

section \<open>Client-side image compression (image-compress.js)\<close>

text \<open>
  The module has four functions: \<open>compressImage\<close>, \<open>applyImageCompression\<close>,
  \<open>compressAllImages\<close> and \<open>compressImageForCarousel\<close>. They are embedded below as HOL
  functions. What the browser decides (whether an image loads, what the canvas returns,
  which elements a selector matches) is a parameter of the model, the record \<open>browser\<close>.

  Numbers: \<open>img.width\<close> and \<open>img.height\<close> are unsigned integers (\<open>nat\<close>). The bounds, the
  quality and the scaled sizes are JavaScript numbers, that is doubles: a finite one is
  the rational it denotes, and products and quotients are rounded as the engine rounds
  them. A result that is not a finite number is \<open>None\<close>.
\<close>

subsection \<open>Strings\<close>

text \<open>\<open>String.prototype.startsWith\<close>: the receiver begins with the search string.\<close>

definition startsWith :: "string \<Rightarrow> string \<Rightarrow> bool" where
  "startsWith s p = prefix p s"

text \<open>\<open>String.prototype.includes\<close>: the search string occurs somewhere in the receiver.\<close>

fun includes_str :: "string \<Rightarrow> string \<Rightarrow> bool" where
  "includes_str [] p = (p = [])"
| "includes_str (c # cs) p = (prefix p (c # cs) \<or> includes_str cs p)"

text \<open>\<open>String.prototype.endsWith\<close>, used to state what the code does not test.\<close>

definition endsWith :: "string \<Rightarrow> string \<Rightarrow> bool" where
  "endsWith s p = suffix p s"

text \<open>
  \<open>String.prototype.toLowerCase\<close> on the letters A to Z. A character outside ASCII never
  becomes one of the characters of \<open>.png\<close>, so the test of line 82 is not affected by
  leaving the other characters as they are.
\<close>

definition toLowerCase_char :: "char \<Rightarrow> char" where
  "toLowerCase_char c =
     (case map_of (zip ''ABCDEFGHIJKLMNOPQRSTUVWXYZ'' ''abcdefghijklmnopqrstuvwxyz'') c of
        None \<Rightarrow> c
      | Some l \<Rightarrow> l)"

definition toLowerCase :: "string \<Rightarrow> string" where
  "toLowerCase s = map toLowerCase_char s"

subsection \<open>Numbers\<close>

text \<open>
  A JavaScript number is an IEEE 754 double. A finite number is modelled by the rational
  it denotes, and each arithmetic operation computes the exact result and rounds it to
  the nearest double, ties to even. \<open>nearestDouble\<close> is that rounding: 53 significant
  bits, exponents from \<open>-1022\<close> (below which the spacing stays at \<open>2 powi -1074\<close>) and
  \<open>None\<close> when the rounded value reaches \<open>2 ^ 1024\<close>, where the double is an infinity.
\<close>

text \<open>The number of binary digits of a natural number.\<close>

fun bitLength :: "nat \<Rightarrow> nat" where
  "bitLength n = (if n = 0 then 0 else Suc (bitLength (n div 2)))"

declare bitLength.simps [simp del]

text \<open>For \<open>a > 0\<close>, the exponent \<open>e\<close> with \<open>2 powi e \<le> a < 2 powi (e + 1)\<close>.\<close>

definition exponentOf :: "rat \<Rightarrow> int" where
  "exponentOf a =
     (if 1 \<le> a then int (bitLength (nat \<lfloor>a\<rfloor>)) - 1
      else - int (bitLength (nat (\<lceil>1 / a\<rceil> - 1))))"

definition roundHalfEven :: "rat \<Rightarrow> int" where
  "roundHalfEven m =
     (let f = \<lfloor>m\<rfloor>; d = m - of_int f
      in if d < 1 / 2 then f else if 1 / 2 < d then f + 1 else if even f then f else f + 1)"

definition nearestDouble :: "rat \<Rightarrow> rat option" where
  "nearestDouble x =
     (if x = 0 then Some 0
      else (let a = \<bar>x\<bar>;
                e = max (exponentOf a) (- 1022);
                ulp = power_int 2 (e - 52);
                r = of_int (roundHalfEven (a / ulp)) * ulp
            in if r < 2 ^ 1024 then Some (sgn x * r) else None))"

text \<open>
  The operators \<open>*\<close> and \<open>/\<close> on finite numbers. \<open>None\<close> is a result that is not a finite
  number (\<open>NaN\<close> or an infinity): a division by zero, an overflow, or an operand that is not
  finite already. HOL's own \<open>x / 0 = 0\<close> is never used.
\<close>

definition js_mul :: "rat \<Rightarrow> rat \<Rightarrow> rat option" where
  "js_mul a b = nearestDouble (a * b)"

definition js_div :: "rat option \<Rightarrow> rat \<Rightarrow> rat option" where
  "js_div x b = (case x of None \<Rightarrow> None | Some a \<Rightarrow> if b = 0 then None else nearestDouble (a / b))"

subsection \<open>The size computation of \<open>compressImage\<close> (lines 36 to 62)\<close>

text \<open>Line 41: \<open>width > maxWidth || height > maxHeight\<close>.\<close>

definition shouldResize :: "nat \<Rightarrow> nat \<Rightarrow> rat \<Rightarrow> rat \<Rightarrow> bool" where
  "shouldResize width height maxWidth maxHeight =
     (of_nat width > maxWidth \<or> of_nat height > maxHeight)"

text \<open>
  Line 43: the image is small enough to be returned as it is
  (\<open>!shouldResize && width * height < 500000\<close>). The product of two unsigned longs is
  rounded only when it is at least \<open>2 ^ 53\<close>, and the rounding is monotone, so the
  comparison with 500000 has the same result as on the exact product.
\<close>

definition keepOriginal :: "nat \<Rightarrow> nat \<Rightarrow> rat \<Rightarrow> rat \<Rightarrow> bool" where
  "keepOriginal width height maxWidth maxHeight =
     (\<not> shouldResize width height maxWidth maxHeight \<and> width * height < 500000)"

text \<open>
  Lines 50 to 62: the width and height given to the canvas. The outer test is on which
  dimension is larger, the inner one on whether that dimension exceeds its bound.
\<close>

definition scaledSize :: "nat \<Rightarrow> nat \<Rightarrow> rat \<Rightarrow> rat \<Rightarrow> rat option \<times> rat option" where
  "scaledSize width height maxWidth maxHeight =
     (if shouldResize width height maxWidth maxHeight then
        (if width > height then
           (if of_nat width > maxWidth
            then (Some maxWidth, js_div (js_mul (of_nat height) maxWidth) (of_nat width))
            else (Some (of_nat width), Some (of_nat height)))
         else
           (if of_nat height > maxHeight
            then (js_div (js_mul (of_nat width) maxHeight) (of_nat height), Some maxHeight)
            else (Some (of_nat width), Some (of_nat height))))
      else (Some (of_nat width), Some (of_nat height)))"

subsection \<open>The browser\<close>

text \<open>
  An \<open>Image\<close> whose \<open>src\<close> is assigned fires either \<open>load\<close>, with the image's width and
  height readable, or \<open>error\<close>.
\<close>

datatype image_event = OnLoad nat nat | OnError

datatype image_format = JPEG | PNG

text \<open>
  What lines 65 to 87 ask of the canvas: the image drawn (its source and whether it was
  requested with \<open>crossOrigin = 'anonymous'\<close>), the width and height given to the canvas and
  to \<open>drawImage\<close>, and the two arguments of \<open>toDataURL\<close>. A quality of \<open>None\<close> is
  \<open>undefined\<close>. The width and height are the numbers assigned on lines 66 and 67 and
  passed to \<open>drawImage\<close> on line 75.
\<close>

record canvas_job =
  image :: string
  anonymous :: bool
  canvas_width :: "rat option"
  canvas_height :: "rat option"
  outputFormat :: image_format
  outputQuality :: "rat option"

text \<open>
  What \<open>canvas.width\<close> and \<open>canvas.height\<close> read after lines 66 and 67. The DOM converts
  the assigned number to an unsigned long (a number that is not finite becomes 0, any
  other is truncated towards zero and taken modulo \<open>2 ^ 32\<close>) and replaces a value above
  \<open>2147483647\<close> by the attribute's default, 300 for the width and 150 for the height.
\<close>

definition toUnsignedLong :: "rat option \<Rightarrow> nat" where
  "toUnsignedLong v =
     (case v of
        None \<Rightarrow> 0
      | Some x \<Rightarrow> nat ((if x < 0 then \<lceil>x\<rceil> else \<lfloor>x\<rfloor>) mod 2 ^ 32))"

definition canvasSize :: "nat \<Rightarrow> rat option \<Rightarrow> nat" where
  "canvasSize dflt v = (let n = toUnsignedLong v in if n \<le> 2147483647 then n else dflt)"

text \<open>
  The browser as the module sees it. \<open>loadImage b s anon k\<close> is the event fired for the
  image request number \<open>k\<close> of a run, for source \<open>s\<close>, with or without the anonymous
  cross-origin mode. \<open>canvas b job\<close> is the data URL returned by \<open>toDataURL\<close>, or \<open>None\<close> when one
  of the canvas calls throws (a tainted canvas, no 2d context).
\<close>

record browser =
  location_protocol :: string
  location_host :: string
  loadImage :: "string \<Rightarrow> bool \<Rightarrow> nat \<Rightarrow> image_event"
  canvas :: "canvas_job \<Rightarrow> string option"

text \<open>How a promise settles, and what a run does to the browser, in order.\<close>

datatype settled = Resolved string | Rejected

datatype effect = ImageRequest string bool | CanvasEncode canvas_job | ConsoleWarn

subsection \<open>\<open>compressImage\<close> (lines 14 to 118)\<close>

text \<open>Lines 22 to 28: whether \<open>img.crossOrigin = 'anonymous'\<close> is set.\<close>

definition crossOriginAnonymous :: "browser \<Rightarrow> string \<Rightarrow> bool" where
  "crossOriginAnonymous b imageSrc =
     (\<not> startsWith imageSrc ''data:'' \<and>
      \<not> startsWith imageSrc ''/'' \<and>
      \<not> startsWith imageSrc ''./'' \<and>
      includes_str imageSrc ''://'' \<and>
      \<not> startsWith imageSrc (location_protocol b @ ''//'' @ location_host b))"

text \<open>Lines 78 to 85: the format and the quality passed to \<open>toDataURL\<close>.\<close>

definition chooseFormat :: "string \<Rightarrow> bool \<Rightarrow> rat \<Rightarrow> image_format \<times> rat option" where
  "chooseFormat imageSrc resize quality =
     (if includes_str (toLowerCase imageSrc) ''.png'' \<and> \<not> resize
      then (PNG, None)
      else (JPEG, Some quality))"

text \<open>Lines 50 to 87 put together: the canvas work for a loaded image.\<close>

definition encodeJob ::
  "string \<Rightarrow> bool \<Rightarrow> nat \<Rightarrow> nat \<Rightarrow> rat \<Rightarrow> rat \<Rightarrow> rat \<Rightarrow> canvas_job" where
  "encodeJob imageSrc anon width height maxWidth maxHeight quality =
     (let resize = shouldResize width height maxWidth maxHeight;
          size = scaledSize width height maxWidth maxHeight;
          fq = chooseFormat imageSrc resize quality
      in \<lparr>image = imageSrc, anonymous = anon,
          canvas_width = fst size, canvas_height = snd size,
          outputFormat = fst fq, outputQuality = snd fq\<rparr>)"

text \<open>
  Lines 33 to 93, the \<open>load\<close> handler: a small image resolves with the source; otherwise
  the canvas is asked, and a throw inside the \<open>try\<close> is caught and resolves with the source.
\<close>

definition onload ::
  "browser \<Rightarrow> string \<Rightarrow> bool \<Rightarrow> nat \<Rightarrow> nat \<Rightarrow> rat \<Rightarrow> rat \<Rightarrow> rat \<Rightarrow> settled \<times> effect list" where
  "onload b imageSrc anon width height maxWidth maxHeight quality =
     (if keepOriginal width height maxWidth maxHeight then (Resolved imageSrc, [])
      else
        (let job = encodeJob imageSrc anon width height maxWidth maxHeight quality
         in case canvas b job of
              Some compressedDataUrl \<Rightarrow> (Resolved compressedDataUrl, [CanvasEncode job])
            | None \<Rightarrow> (Resolved imageSrc, [CanvasEncode job, ConsoleWarn])))"

text \<open>
  Line 102 and 103: \<open>.then(resolve).catch(() => resolve(imageSrc))\<close> on the promise of the
  recursive call.
\<close>

definition thenResolve :: "string \<Rightarrow> settled \<Rightarrow> settled" where
  "thenResolve imageSrc r = (case r of Resolved u \<Rightarrow> Resolved u | Rejected \<Rightarrow> Resolved imageSrc)"

text \<open>
  The whole function, with the arguments given (the callers in this module pass all
  four). \<open>k\<close> counts the image requests made before the call. The result is
  how the returned promise settles and what was done; \<open>None\<close> is a promise that never
  settles. On \<open>error\<close> with the anonymous mode set (lines 97 to 109) a second image is
  requested without the mode, and when that one loads the function calls itself with the
  same arguments.
\<close>

partial_function (option) compressImage ::
  "browser \<Rightarrow> nat \<Rightarrow> string \<Rightarrow> rat \<Rightarrow> rat \<Rightarrow> rat \<Rightarrow> (settled \<times> effect list) option" where
  "compressImage b k imageSrc maxWidth maxHeight quality =
     (let anon = crossOriginAnonymous b imageSrc in
      case loadImage b imageSrc anon k of
        OnLoad width height \<Rightarrow>
          (case onload b imageSrc anon width height maxWidth maxHeight quality of
             (r, es) \<Rightarrow> Some (r, ImageRequest imageSrc anon # es))
      | OnError \<Rightarrow>
          if anon then
            (case loadImage b imageSrc False (k + 1) of
               OnLoad width height \<Rightarrow>
                 Option.bind (compressImage b (k + 2) imageSrc maxWidth maxHeight quality)
                   (\<lambda>(r, es). Some (thenResolve imageSrc r,
                      ImageRequest imageSrc True # ImageRequest imageSrc False # es))
             | OnError \<Rightarrow>
                 Some (Resolved imageSrc,
                   [ImageRequest imageSrc True, ImageRequest imageSrc False, ConsoleWarn]))
          else Some (Resolved imageSrc, [ImageRequest imageSrc False, ConsoleWarn]))"

subsection \<open>\<open>applyImageCompression\<close> (lines 125 to 169)\<close>

text \<open>
  An options object. A field that is \<open>None\<close> is a property the caller left out, for
  which the destructuring of lines 126 to 131 and the spread of line 183 supply the default.
\<close>

record options =
  opt_maxWidth :: "rat option"
  opt_maxHeight :: "rat option"
  opt_quality :: "rat option"
  opt_showLoading :: "bool option"
  opt_selector :: "string option"

text \<open>
  A listener registered by this module: the event, the \<open>once\<close> flag, and the options
  that the handler passes to \<open>applyImageCompression\<close>.
\<close>

record listener =
  event_type :: string
  once :: bool
  captured :: options

text \<open>
  The attributes of an image element that the module reads and writes. \<open>src\<close> is what
  the \<open>src\<close> property returns; \<open>dataset_compressed\<close> is \<open>None\<close> while
  \<open>dataset.compressed\<close> is not set.
\<close>

record img_element =
  src :: string
  dataset_compressed :: "string option"
  dataset_originalSrc :: "string option"
  style_opacity :: string
  style_transition :: string
  classList :: "string list"
  complete_img :: bool
  listeners :: "listener list"

text \<open>
  The function awaits \<open>compressImage\<close>, so it completes only if that promise settles:
  \<open>None\<close> is a call that never completes. The result is the element afterwards and
  what was done. The \<open>catch\<close> of lines 164 to 168 is the branch for a rejected promise.
\<close>

definition applyImageCompression ::
  "browser \<Rightarrow> nat \<Rightarrow> img_element \<Rightarrow> options \<Rightarrow> (img_element \<times> effect list) option" where
  "applyImageCompression b k imgElement opts =
     (let maxWidth = (case opt_maxWidth opts of None \<Rightarrow> 1920 | Some v \<Rightarrow> v);
          maxHeight = (case opt_maxHeight opts of None \<Rightarrow> 1920 | Some v \<Rightarrow> v);
          quality = (case opt_quality opts of None \<Rightarrow> 4 / 5 | Some v \<Rightarrow> v);
          showLoading = (case opt_showLoading opts of None \<Rightarrow> True | Some v \<Rightarrow> v)
      in if dataset_compressed imgElement = Some ''true'' then Some (imgElement, [])
         else
           (let originalSrc = src imgElement
            in if startsWith originalSrc ''data:image'' then Some (imgElement, [])
               else
                 (let dimmed = (if showLoading then imgElement\<lparr>style_opacity := ''0.5''\<rparr>
                                else imgElement)
                  in Option.bind (compressImage b k originalSrc maxWidth maxHeight quality)
                       (\<lambda>(r, es).
                          case r of
                            Resolved compressedSrc \<Rightarrow>
                              (let marked = dimmed\<lparr>src := compressedSrc,
                                     dataset_compressed := Some ''true'',
                                     dataset_originalSrc := Some originalSrc\<rparr>
                               in Some (if showLoading
                                        then marked\<lparr>style_opacity := ''1'',
                                               style_transition := ''opacity 0.5s ease''\<rparr>
                                        else marked, es))
                          | Rejected \<Rightarrow>
                              Some (dimmed\<lparr>style_opacity := ''1''\<rparr>, es @ [ConsoleWarn])))))"

subsection \<open>\<open>compressAllImages\<close> (lines 175 to 205) and \<open>compressImageForCarousel\<close>\<close>





text \<open>Lines 212 to 225.\<close>

definition compressImageForCarousel ::
  "browser \<Rightarrow> nat \<Rightarrow> img_element \<Rightarrow> options \<Rightarrow> (img_element \<times> effect list) option" where
  "compressImageForCarousel b k imgElement opts =
     applyImageCompression b k imgElement
       \<lparr>opt_maxWidth = Some (case opt_maxWidth opts of None \<Rightarrow> 1920 | Some v \<Rightarrow> v),
        opt_maxHeight = Some (case opt_maxHeight opts of None \<Rightarrow> 1920 | Some v \<Rightarrow> v),
        opt_quality = Some (case opt_quality opts of None \<Rightarrow> 4 / 5 | Some v \<Rightarrow> v),
        opt_showLoading = Some False,
        opt_selector = None\<rparr>"

subsection \<open>Concrete browsers and elements\<close>

text \<open>
  A page at \<open>https://shop.example\<close> on which every request with the anonymous mode gets
  the first answer and every request without it the second, and the canvas always
  returns the same thing.
\<close>

definition staticBrowser :: "image_event \<Rightarrow> image_event \<Rightarrow> string option \<Rightarrow> browser" where
  "staticBrowser withMode withoutMode dataUrl =
     \<lparr>location_protocol = ''https:'', location_host = ''shop.example'',
      loadImage = (\<lambda>s anon k. if anon then withMode else withoutMode),
      canvas = (\<lambda>job. dataUrl)\<rparr>"

text \<open>A fresh element, loaded or not, with the given source and classes.\<close>

definition freshImg :: "string \<Rightarrow> string list \<Rightarrow> bool \<Rightarrow> img_element" where
  "freshImg s cs c =
     \<lparr>src = s, dataset_compressed = None, dataset_originalSrc = None,
      style_opacity = [], style_transition = [], classList = cs,
      complete_img = c, listeners = []\<rparr>"

definition noOptions :: options where
  "noOptions = \<lparr>opt_maxWidth = None, opt_maxHeight = None, opt_quality = None,
                 opt_showLoading = None, opt_selector = None\<rparr>"

section \<open>Rounding to a double\<close>

lemma bitLength_bounds:
  "0 < n \<Longrightarrow> 2 ^ (bitLength n - 1) \<le> n \<and> n < 2 ^ bitLength n"
proof (induction n rule: bitLength.induct)
  case (1 n)
  show ?case
  proof (cases "n div 2 = 0")
    case True
    with "1.prems" have "n = 1" by (simp add: div_eq_0_iff) 
    then show ?thesis by (simp add: bitLength.simps)
  next
    case False
    then have pos: "0 < n div 2" by simp
    from "1.IH" [OF _ pos] "1.prems"
    have ih: "2 ^ (bitLength (n div 2) - 1) \<le> n div 2" "n div 2 < 2 ^ bitLength (n div 2)"
      by simp_all
    have bl: "bitLength n = Suc (bitLength (n div 2))"
      using "1.prems" by (subst bitLength.simps) simp
    have "0 < bitLength (n div 2)"
      using pos by (subst bitLength.simps) simp
    then obtain j where j: "bitLength (n div 2) = Suc j" by (cases "bitLength (n div 2)") auto
    from ih j have "2 ^ j \<le> n div 2" "n div 2 < 2 ^ Suc j" by simp_all
    then have "2 * 2 ^ j \<le> n" "n < 2 * 2 ^ Suc j" by auto
    then show ?thesis by (simp add: bl j)
  qed
qed

lemma floor_numeral_div_rat [simp]:
  "\<lfloor>numeral a / numeral b :: rat\<rfloor> = numeral a div numeral b"
  using floor_divide_of_int_eq [of "numeral a" "numeral b", where ?'a = rat] by simp

lemma bitLength_numeral [simp]: "bitLength (numeral k) = Suc (bitLength (numeral k div 2))"
  by (subst bitLength.simps) simp

lemma bitLength_0 [simp]: "bitLength 0 = 0"
  by (subst bitLength.simps) simp

lemma bitLength_1 [simp]: "bitLength 1 = 1" "bitLength (Suc 0) = 1"
  by (subst bitLength.simps, simp)+

lemma bitLength_pos: "0 < n \<Longrightarrow> 0 < bitLength n"
  by (subst bitLength.simps) simp

lemma pow2_le_of_nat: "2 ^ j \<le> n \<Longrightarrow> (2::rat) ^ j \<le> of_nat n"
  by simp

lemma of_nat_less_pow2: "n < 2 ^ j \<Longrightarrow> (of_nat n :: rat) + 1 \<le> 2 ^ j"
proof -
  assume "n < 2 ^ j"
  then have "n + 1 \<le> 2 ^ j" by simp
  then have "(of_nat (n + 1) :: rat) \<le> of_nat (2 ^ j)" by (rule of_nat_mono)
  then show ?thesis by (simp only: of_nat_add of_nat_1 of_nat_power of_nat_numeral)
qed

lemma exponentOf_bounds:
  assumes "0 < a"
  shows "power_int 2 (exponentOf a) \<le> a \<and> a < power_int 2 (exponentOf a + 1)"
proof (cases "1 \<le> a")
  case True
  define n where "n = nat \<lfloor>a\<rfloor>"
  have fl: "1 \<le> \<lfloor>a\<rfloor>" using True by simp
  then have npos: "0 < n" by (simp add: n_def)
  have "(of_nat n :: rat) = of_int \<lfloor>a\<rfloor>"
    using fl by (simp add: n_def)
  then have na: "of_nat n \<le> a" "a < of_nat n + 1"
    using floor_correct [of a] by simp_all
  obtain j where j: "bitLength n = Suc j"
    using bitLength_pos [OF npos] by (cases "bitLength n") auto
  from bitLength_bounds [OF npos] j have b: "2 ^ j \<le> n" "n < 2 ^ Suc j" by simp_all
  have e: "exponentOf a = int j"
    using True j by (simp add: exponentOf_def n_def)
  have lo: "(2::rat) ^ j \<le> a"
    using pow2_le_of_nat [OF b(1)] na(1) by (rule order_trans)
  have hi: "a < (2::rat) ^ Suc j"
    using na(2) of_nat_less_pow2 [OF b(2)] by (rule less_le_trans)
  have "power_int (2::rat) (int j + 1) = 2 ^ Suc j"
    by (metis of_nat_Suc power_int_of_nat add.commute of_nat_1 of_nat_add)
  with lo hi e show ?thesis by simp
next
  case False
  define y where "y = 1 / a"
  have y1: "1 < y" using False assms by (simp add: y_def)
  define n where "n = nat (\<lceil>y\<rceil> - 1)"
  have c2: "2 \<le> \<lceil>y\<rceil>" using y1 by (simp add: le_ceiling_iff)
  then have npos: "0 < n" by (simp add: n_def)
  have ny: "of_nat n < y" "y \<le> of_nat n + 1"
  proof -
    have "of_int (\<lceil>y\<rceil> - 1) < y" using ceiling_correct [of y] by simp
    moreover have "(of_nat n :: rat) = of_int (\<lceil>y\<rceil> - 1)"
      using c2 by (simp add: n_def)
    ultimately show "of_nat n < y" by simp
    have "y \<le> of_int \<lceil>y\<rceil>" by simp
    moreover have "(of_nat n :: rat) + 1 = of_int \<lceil>y\<rceil>"
      using c2 by (simp add: n_def)
    ultimately show "y \<le> of_nat n + 1" by simp
  qed
  obtain j where j: "bitLength n = Suc j"
    using bitLength_pos [OF npos] by (cases "bitLength n") auto
  from bitLength_bounds [OF npos] j have b: "2 ^ j \<le> n" "n < 2 ^ Suc j" by simp_all
  have e: "exponentOf a = - int (Suc j)"
    using False j by (simp add: exponentOf_def n_def y_def)
  have lo: "(2::rat) ^ j < y"
    using pow2_le_of_nat [OF b(1)] ny(1) by (rule le_less_trans)
  have hi: "y \<le> (2::rat) ^ Suc j"
    using ny(2) of_nat_less_pow2 [OF b(2)] by (rule order_trans)
  have a_eq: "a = 1 / y" by (simp add: y_def)
  have ypos: "0 < y" using y1 by simp
  have r1: "1 / (2::rat) ^ Suc j \<le> a"
    unfolding a_eq using hi ypos by (simp add: frac_le)
  have r2: "a < 1 / (2::rat) ^ j"
    unfolding a_eq using lo by (simp add: frac_less2)
  have p1: "power_int (2::rat) (- int (Suc j)) = 1 / 2 ^ Suc j"
    by (simp only: power_int_minus_divide power_int_of_nat)
  have "- int (Suc j) + 1 = - int j" by simp
  then have p2: "power_int (2::rat) (- int (Suc j) + 1) = 1 / 2 ^ j"
    by (simp only: power_int_minus_divide power_int_of_nat)
  show ?thesis
    unfolding e p1 p2 using r1 r2 by simp
qed

lemma roundHalfEven_error: "\<bar>of_int (roundHalfEven m) - m\<bar> \<le> 1 / 2"
proof -
  define f where "f = \<lfloor>m\<rfloor>"
  have f: "of_int f \<le> m" "m < of_int f + 1"
    unfolding f_def by linarith+
  have r: "roundHalfEven m =
      (if m - of_int f < 1 / 2 then f else if 1 / 2 < m - of_int f then f + 1
       else if even f then f else f + 1)"
    by (simp add: roundHalfEven_def Let_def f_def)
  show ?thesis
  proof (cases "m - of_int f < 1 / 2")
    case True
    with f r show ?thesis by simp
  next
    case False
    show ?thesis
    proof (cases "1 / 2 < m - of_int f")
      case True
      with False f r show ?thesis by simp
    next
      case eq: False
      with False have "m - of_int f = 1 / 2" by simp
      then have "m = of_int f + 1 / 2" by simp
      with r show ?thesis by simp
    qed
  qed
qed


lemma nearestDouble_accurate:
  assumes lo: "power_int 2 (- 1022) \<le> x" and hi: "x < 2 ^ 1023"
  shows "\<exists>r. nearestDouble x = Some r \<and> \<bar>r - x\<bar> \<le> x / 2 ^ 53"
proof -
  have "(0::rat) < power_int 2 (- 1022)" by (rule zero_less_power_int) simp
  then have xpos: "0 < x" using lo by (rule less_le_trans)
  define e where "e = exponentOf x"
  from exponentOf_bounds [OF xpos]
  have b: "power_int 2 e \<le> x" "x < power_int 2 (e + 1)" by (simp_all add: e_def)
  have e_lo: "- 1022 \<le> e"
  proof (rule ccontr)
    assume "\<not> - 1022 \<le> e"
    then have "e + 1 \<le> - 1022" by simp
    then have "power_int (2::rat) (e + 1) \<le> power_int 2 (- 1022)"
      by (rule power_int_increasing) simp
    with b(2) lo show False by linarith
  qed
  define ulp :: rat where "ulp = power_int 2 (e - 52)"
  have ulp_pos: "0 < ulp" unfolding ulp_def by (rule zero_less_power_int) simp
  have ulp_eq: "ulp = power_int 2 e / 2 ^ 52"
    unfolding ulp_def by (subst power_int_diff) simp_all
  define k where "k = roundHalfEven (x / ulp)"
  define r where "r = of_int k * ulp"
  have "\<bar>of_int k - x / ulp\<bar> \<le> 1 / 2"
    unfolding k_def by (rule roundHalfEven_error)
  then have "\<bar>of_int k - x / ulp\<bar> * ulp \<le> 1 / 2 * ulp"
    using ulp_pos by (intro mult_right_mono) simp_all
  moreover have "\<bar>of_int k - x / ulp\<bar> * ulp = \<bar>r - x\<bar>"
  proof -
    have "r - x = (of_int k - x / ulp) * ulp"
      using ulp_pos by (simp add: r_def field_simps)
    then show ?thesis using ulp_pos by (simp add: abs_mult)
  qed
  ultimately have err: "\<bar>r - x\<bar> \<le> ulp / 2" by simp
  have "ulp / 2 = power_int 2 e / 2 ^ 53" by (simp add: ulp_eq)
  also have "\<dots> \<le> x / 2 ^ 53" using b(1) by (simp add: divide_right_mono)
  finally have half: "ulp / 2 \<le> x / 2 ^ 53" .
  with err have acc: "\<bar>r - x\<bar> \<le> x / 2 ^ 53" by (rule order_trans)
  have "x / 2 ^ 53 \<le> x" using xpos by (simp add: field_simps)
  with acc have "r \<le> x + x" by linarith
  also have "\<dots> < 2 ^ 1023 + 2 ^ 1023" using hi by (intro add_strict_mono)
  also have "\<dots> = (2::rat) ^ 1024" by simp
  finally have small: "r < 2 ^ 1024" .
  have ax: "\<bar>x\<bar> = x" using xpos by simp
  have mx: "max (exponentOf x) (- 1022) = e"
    unfolding e_def using e_lo [unfolded e_def] by (rule max_absorb1)
  have "nearestDouble x = Some r"
    unfolding nearestDouble_def Let_def ax mx
    using xpos small
    by (simp add: ulp_def [symmetric] k_def [symmetric] r_def [symmetric])
  with acc show ?thesis by blast
qed

text \<open>Two values of \<open>nearestDouble\<close>, the second as the engine prints it: 333.3333333333333.\<close>

lemma nearestDouble_examples:
  "nearestDouble 1000000 = Some 1000000 \<and>
   nearestDouble (1000 / 3) = Some (5864062014805333 / 17592186044416)"
  by (simp add: nearestDouble_def exponentOf_def roundHalfEven_def Let_def)

lemma abs_diff_le_D:
  fixes a b c :: rat
  assumes "\<bar>a - b\<bar> \<le> c"
  shows "b - c \<le> a" and "a \<le> b + c"
  using assms by linarith+

text \<open>In a range that pixel sizes stay in, the rounding is within \<open>2 powi -53\<close>, relatively.\<close>

lemma nearestDouble_accurate_mid:
  assumes "1 / 2 ^ 40 \<le> x" and "x < 2 ^ 70"
  shows "\<exists>r. nearestDouble x = Some r \<and> \<bar>r - x\<bar> \<le> x / 2 ^ 53"
proof (rule nearestDouble_accurate)
  have "power_int (2::rat) (- 1022) \<le> power_int 2 (- 40)"
    by (rule power_int_increasing) simp_all
  also have "power_int (2::rat) (- 40) = 1 / 2 ^ 40"
    by (simp only: power_int_minus_divide power_int_numeral)
  finally show "power_int 2 (- 1022) \<le> x" using assms(1) by (rule order_trans)
  have "(2::rat) ^ 70 \<le> 2 ^ 1023" by (rule power_increasing) simp_all
  with assms(2) show "x < 2 ^ 1023" by (rule less_le_trans)
qed

section \<open>The size given to the canvas\<close>

text \<open>
  The scaled dimension, \<open>(n * m) / d\<close> with both operations rounded, for a bound \<open>m\<close>
  from 1 up to \<open>2 ^ 31\<close> and unsigned longs \<open>n\<close> and \<open>d\<close>: it is a finite number within
  \<open>3 / 2 ^ 53\<close>, relatively, of the exact quotient.
\<close>

lemma scaled_accurate:
  fixes m :: rat
  assumes m: "1 \<le> m" "m < 2 ^ 31" and n: "n < 2 ^ 32" and d: "0 < d" "d < 2 ^ 32"
  shows "\<exists>r. js_div (js_mul (of_nat n) m) (of_nat d) = Some r \<and>
           \<bar>r - of_nat n * m / of_nat d\<bar> \<le> of_nat n * m / of_nat d * (3 / 2 ^ 53)"
proof (cases "n = 0")
  case True
  then show ?thesis
    using d by (simp add: js_mul_def js_div_def nearestDouble_def)
next
  case False
  define P where "P = of_nat n * m"
  define D :: rat where "D = of_nat d"
  have n1: "(1::rat) \<le> of_nat n" using False by simp
  have nr: "(of_nat n :: rat) < 2 ^ 32"
    using n by (metis of_nat_less_iff of_nat_numeral of_nat_power)
  have D1: "1 \<le> D" using d(1) by (simp add: D_def)
  have Dr: "D < 2 ^ 32"
    unfolding D_def using d(2) by (metis of_nat_less_iff of_nat_numeral of_nat_power)
  have P1: "1 \<le> P"
    unfolding P_def using n1 m(1) by (metis mult_mono mult_1 zero_le_one order_trans)
  have "P \<le> of_nat n * 2 ^ 31"
    unfolding P_def using m(2) by (intro mult_left_mono) simp_all
  also have "\<dots> < 2 ^ 32 * 2 ^ 31"
    using nr by (intro mult_strict_right_mono) simp_all
  finally have Pr: "P < 2 ^ 63" by simp
  have "\<exists>p. nearestDouble P = Some p \<and> \<bar>p - P\<bar> \<le> P / 2 ^ 53"
    using P1 Pr by (intro nearestDouble_accurate_mid) simp_all
  then obtain p where p: "nearestDouble P = Some p" "\<bar>p - P\<bar> \<le> P / 2 ^ 53" by blast
  have Ph: "P / 2 ^ 53 \<le> P / 2"
    using P1 by (intro divide_left_mono) simp_all
  have plo: "1 / 2 \<le> p" using abs_diff_le_D(1) [OF p(2)] P1 Ph by linarith
  have "p \<le> P + P / 2" using abs_diff_le_D(2) [OF p(2)] Ph by linarith
  also have "\<dots> < 2 ^ 63 + 2 ^ 63 / 2" using Pr by simp
  also have "\<dots> \<le> (2::rat) ^ 64" by simp
  finally have phi: "p < 2 ^ 64" .
  define Q where "Q = p / D"
  have Dpos: "0 < D" using D1 by simp
  have "1 / 2 / 2 ^ 32 \<le> p / D"
    using plo Dr Dpos by (intro frac_le) simp_all
  moreover have "(1::rat) / 2 ^ 40 \<le> 1 / 2 / 2 ^ 32" by simp
  ultimately have Qlo: "1 / 2 ^ 40 \<le> Q" unfolding Q_def by (rule order_trans [rotated])
  have "p / D \<le> p / 1"
    using plo D1 by (intro divide_left_mono) simp_all
  then have Qhi: "Q < 2 ^ 70" using phi by (simp add: Q_def)
  have "\<exists>r. nearestDouble Q = Some r \<and> \<bar>r - Q\<bar> \<le> Q / 2 ^ 53"
    using Qlo Qhi by (rule nearestDouble_accurate_mid)
  then obtain r where r: "nearestDouble Q = Some r" "\<bar>r - Q\<bar> \<le> Q / 2 ^ 53" by blast
  define X where "X = P / D"
  have Xpos: "0 < X" using P1 Dpos by (simp add: X_def)
  have "\<bar>Q - X\<bar> = \<bar>p - P\<bar> / D"
    using Dpos by (simp add: Q_def X_def diff_divide_distrib [symmetric])
  also have "\<dots> \<le> P / 2 ^ 53 / D"
    using p(2) Dpos by (intro divide_right_mono) simp_all
  also have "\<dots> = X / 2 ^ 53" by (simp add: X_def)
  finally have qx: "\<bar>Q - X\<bar> \<le> X / 2 ^ 53" .
  have "X / 2 ^ 53 \<le> X" using Xpos by (simp add: field_simps)
  with abs_diff_le_D(2) [OF qx] have "Q \<le> 2 * X" by linarith
  then have "Q / 2 ^ 53 \<le> 2 * X / 2 ^ 53" by (intro divide_right_mono) simp_all
  with r(2) have rq: "\<bar>r - Q\<bar> \<le> 2 * (X / 2 ^ 53)" by simp
  define u where "u = X / 2 ^ 53"
  have "\<bar>r - X\<bar> \<le> 3 * u"
    using rq qx unfolding u_def [symmetric] by linarith
  then have "\<bar>r - X\<bar> \<le> X * (3 / 2 ^ 53)" by (simp add: u_def)
  moreover have "js_div (js_mul (of_nat n) m) (of_nat d) = Some r"
    using p(1) r(1) Dpos by (simp add: js_mul_def js_div_def P_def Q_def D_def)
  ultimately show ?thesis by (auto simp: X_def P_def D_def)
qed

text \<open>When \<open>n < d\<close> the scaled dimension does not exceed the bound.\<close>

lemma scaled_within:
  fixes m r :: rat
  assumes "1 \<le> m" and "n < d" and "d < 2 ^ 32"
    and "\<bar>r - of_nat n * m / of_nat d\<bar> \<le> of_nat n * m / of_nat d * (3 / 2 ^ 53)"
  shows "0 \<le> r \<and> r \<le> m"
proof -
  define N :: rat where "N = of_nat n"
  define D :: rat where "D = of_nat d"
  have N0: "0 \<le> N" by (simp add: N_def)
  have ND: "N + 1 \<le> D"
    using assms(2) unfolding N_def D_def by (metis Suc_leI of_nat_Suc of_nat_le_iff add.commute)
  have "D < 2 ^ 32"
    unfolding D_def using assms(3) by (metis of_nat_less_iff of_nat_numeral of_nat_power)
  with ND have Nr: "N < 2 ^ 32" by linarith
  have Dpos: "0 < D" using N0 ND by linarith
  define X where "X = N * m / D"
  have X0: "0 \<le> X" using N0 assms(1) Dpos by (simp add: X_def)
  have err: "\<bar>r - X\<bar> \<le> X * (3 / 2 ^ 53)"
    using assms(4) by (simp add: X_def N_def D_def)
  have "X * (3 / 2 ^ 53) \<le> X * 1"
    using X0 by (intro mult_left_mono) simp_all
  with abs_diff_le_D(1) [OF err] have r0: "0 \<le> r" by linarith
  have c: "N * (1 + 3 / 2 ^ 53) \<le> D" using ND Nr N0 by simp
  have "X * (1 + 3 / 2 ^ 53) = (N * (1 + 3 / 2 ^ 53)) * m / D"
    by (simp add: X_def)
  also have "\<dots> \<le> D * m / D"
    using c assms(1) Dpos by (intro divide_right_mono mult_right_mono) simp_all
  also have "\<dots> = m" using Dpos by simp
  finally have "X * (1 + 3 / 2 ^ 53) \<le> m" .
  moreover have "r \<le> X * (1 + 3 / 2 ^ 53)"
    using abs_diff_le_D(2) [OF err] by (simp add: algebra_simps)
  ultimately show ?thesis using r0 by simp
qed

text \<open>The three cases of lines 50 to 62.\<close>

lemma scaledSize_width_clamped:
  assumes "h < w" and "maxW < of_nat w"
  shows "scaledSize w h maxW maxH = (Some maxW, js_div (js_mul (of_nat h) maxW) (of_nat w))"
  using assms by (simp add: scaledSize_def shouldResize_def)

lemma scaledSize_height_clamped:
  assumes "\<not> h < w" and "maxH < of_nat h"
  shows "scaledSize w h maxW maxH = (js_div (js_mul (of_nat w) maxH) (of_nat h), Some maxH)"
  using assms by (simp add: scaledSize_def shouldResize_def)

lemma scaledSize_unchanged:
  assumes "\<not> (h < w \<and> maxW < of_nat w)" and "\<not> (\<not> h < w \<and> maxH < of_nat h)"
  shows "scaledSize w h maxW maxH = (Some (of_nat w), Some (of_nat h))"
  using assms by (auto simp: scaledSize_def)

text \<open>
  With different bounds the smaller dimension is not checked against its own bound:
  a 1000 by 900 image with bounds 1920 and 800 keeps its height of 900.
\<close>

lemma scaledSize_smaller_dimension_unchecked:
  "shouldResize 1000 900 1920 800 \<and> scaledSize 1000 900 1920 800 = (Some 1000, Some 900)"
  by (simp add: scaledSize_def shouldResize_def)

text \<open>A number from 0 up to \<open>2 ^ 31\<close> is truncated by the canvas.\<close>

lemma canvasSize_floor:
  assumes "0 \<le> x" and "x < 2 ^ 31"
  shows "canvasSize dflt (Some x) = nat \<lfloor>x\<rfloor>"
proof -
  have f0: "0 \<le> \<lfloor>x\<rfloor>" using assms(1) by simp
  have "\<lfloor>x\<rfloor> < 2 ^ 31" using assms(2) by (simp add: floor_less_iff)
  then have f1: "\<lfloor>x\<rfloor> \<le> 2147483647" by simp
  then have "\<lfloor>x\<rfloor> mod 2 ^ 32 = \<lfloor>x\<rfloor>" using f0 by simp
  moreover have "nat \<lfloor>x\<rfloor> \<le> nat 2147483647" using f1 by (rule nat_mono)
  ultimately show ?thesis
    using assms(1) by (simp add: canvasSize_def toUnsignedLong_def Let_def)
qed

text \<open>
  The size for an image that exceeds a bound, with bounds from 1 to 2147483647 (the
  largest size a canvas takes) and the image's sides unsigned longs. Both numbers are
  finite and from 0 up to \<open>2 ^ 31\<close>. The dimension set to its bound is exact; the other
  one is within \<open>3 / 2 ^ 53\<close>, relatively, of the exact quotient. \<open>X\<close> and \<open>Y\<close> below are
  the exact quotients.
\<close>

lemma scaledSize_resized:
  assumes sr: "shouldResize w h mw mh"
    and mw: "1 \<le> mw" "mw \<le> 2147483647" and mh: "1 \<le> mh" "mh \<le> 2147483647"
    and wh: "w < 2 ^ 32" "h < 2 ^ 32"
  shows "\<exists>w' h'. scaledSize w h mw mh = (Some w', Some h') \<and>
           0 \<le> w' \<and> w' < 2 ^ 31 \<and> 0 \<le> h' \<and> h' < 2 ^ 31 \<and>
           (h < w \<and> mw < of_nat w \<longrightarrow>
              w' = mw \<and> js_div (js_mul (of_nat h) mw) (of_nat w) = Some h' \<and> h' \<le> w' \<and>
              \<bar>h' - of_nat h * mw / of_nat w\<bar> \<le> of_nat h * mw / of_nat w * (3 / 2 ^ 53)) \<and>
           (\<not> h < w \<and> mh < of_nat h \<longrightarrow>
              h' = mh \<and> js_div (js_mul (of_nat w) mh) (of_nat h) = Some w' \<and>
              (w < h \<longrightarrow> w' \<le> h') \<and> w' \<le> h' * (1 + 3 / 2 ^ 53) \<and>
              \<bar>w' - of_nat w * mh / of_nat h\<bar> \<le> of_nat w * mh / of_nat h * (3 / 2 ^ 53)) \<and>
           (\<not> (h < w \<and> mw < of_nat w) \<and> \<not> (\<not> h < w \<and> mh < of_nat h) \<longrightarrow>
              w' = of_nat w \<and> h' = of_nat h)"
proof -
  have mw31: "mw < 2 ^ 31" and mh31: "mh < 2 ^ 31" using mw(2) mh(2) by simp_all
  consider (width) "h < w" "mw < of_nat w" | (height) "\<not> h < w" "mh < of_nat h"
    | (neither) "\<not> (h < w \<and> mw < of_nat w)" "\<not> (\<not> h < w \<and> mh < of_nat h)"
    by blast
  then show ?thesis
  proof cases
    case width
    have wpos: "0 < w" using width(1) by simp
    from scaled_accurate [OF mw(1) mw31 wh(2) wpos wh(1)]
    obtain r where r: "js_div (js_mul (of_nat h) mw) (of_nat w) = Some r"
      "\<bar>r - of_nat h * mw / of_nat w\<bar> \<le> of_nat h * mw / of_nat w * (3 / 2 ^ 53)"
      by blast
    from scaled_within [OF mw(1) width(1) wh(1) r(2)] have rb: "0 \<le> r" "r \<le> mw" by simp_all
    have "scaledSize w h mw mh = (Some mw, Some r)"
      using width r(1) by (simp add: scaledSize_width_clamped)
    then show ?thesis
      using width r rb mw mw31 by (intro exI [of _ mw] exI [of _ r]) simp
  next
    case height
    have hpos: "0 < h" using height(2) mh(1) by (cases h) simp_all
    from scaled_accurate [OF mh(1) mh31 wh(1) hpos wh(2)]
    obtain r where r: "js_div (js_mul (of_nat w) mh) (of_nat h) = Some r"
      "\<bar>r - of_nat w * mh / of_nat h\<bar> \<le> of_nat w * mh / of_nat h * (3 / 2 ^ 53)"
      by blast
    have strict: "r \<le> mh" if "w < h"
      using scaled_within [OF mh(1) that wh(2) r(2)] by simp
    have Hpos: "(0::rat) < of_nat h" using hpos by simp
    have "of_nat w \<le> (of_nat h :: rat)" using height(1) by simp
    then have "of_nat w * mh \<le> of_nat h * mh"
      using mh(1) by (intro mult_right_mono) simp_all
    then have X: "of_nat w * mh / of_nat h \<le> mh"
      using Hpos by (simp add: pos_divide_le_eq mult.commute)
    have X0: "0 \<le> of_nat w * mh / of_nat h" using mh(1) by simp
    define X where "X = of_nat w * mh / of_nat h"
    have e: "\<bar>r - X\<bar> \<le> X * (3 / 2 ^ 53)" using r(2) by (simp add: X_def)
    have "X * (3 / 2 ^ 53) \<le> mh * (3 / 2 ^ 53)"
      using X unfolding X_def by (intro mult_right_mono) simp_all
    with abs_diff_le_D(2) [OF e] X have tol: "r \<le> mh * (1 + 3 / 2 ^ 53)"
      unfolding X_def by (simp add: algebra_simps)
    have "X * (3 / 2 ^ 53) \<le> X * 1" using X0 unfolding X_def by (intro mult_left_mono) simp_all
    with abs_diff_le_D(1) [OF e] X0 have r0: "0 \<le> r" unfolding X_def by linarith
    have "mh * (3 / 2 ^ 53) < 1" using mh by simp
    with tol mh(2) have r31: "r < 2 ^ 31" by (simp add: algebra_simps)
    have "scaledSize w h mw mh = (Some r, Some mh)"
      using height r(1) by (simp add: scaledSize_height_clamped)
    then show ?thesis
      using height r strict tol r0 r31 mh mh31
      by (intro exI [of _ r] exI [of _ mh]) simp
  next
    case neither
    have small: "(of_nat w :: rat) < 2 ^ 31 \<and> (of_nat h :: rat) < 2 ^ 31"
    proof (cases "h < w")
      case True
      with neither(1) have "of_nat w \<le> mw" by simp
      moreover have "(of_nat h :: rat) < of_nat w" using True by simp
      ultimately show ?thesis using mw31 by linarith
    next
      case False
      with neither(2) have "of_nat h \<le> mh" by simp
      moreover have "(of_nat w :: rat) \<le> of_nat h" using False by simp
      ultimately show ?thesis using mh31 by linarith
    qed
    have "scaledSize w h mw mh = (Some (of_nat w), Some (of_nat h))"
      using neither by (rule scaledSize_unchanged)
    then show ?thesis
      using neither small by (intro exI [of _ "of_nat w"] exI [of _ "of_nat h"]) simp
  qed
qed




section \<open>\<open>compressImage\<close>\<close>

subsection \<open>How the promise settles\<close>

lemma onload_resolves: "\<exists>u. fst (onload b s anon w h mw mh q) = Resolved u"
  by (simp add: onload_def Let_def split: option.split)

lemma thenResolve_resolves: "\<exists>u. thenResolve s r = Resolved u"
  by (cases r) (simp_all add: thenResolve_def)

text \<open>The promise is never rejected: \<open>reject\<close> is not called anywhere.\<close>

lemma compressImage_never_rejects:
  assumes "compressImage b k s mw mh q = Some (r, es)"
  shows "\<exists>u. r = Resolved u"
proof -
  have "\<exists>u. fst (r, es) = Resolved u"
    apply (rule compressImage.raw_induct
        [where P = "\<lambda>b k s mw mh q y. \<exists>u. fst y = Resolved u", OF _ assms])
    subgoal premises body for f b k imageSrc maxWidth maxHeight quality y
    proof (cases "loadImage b imageSrc (crossOriginAnonymous b imageSrc) k")
      case (OnLoad w h)
      with body(2)
        onload_resolves [of b imageSrc "crossOriginAnonymous b imageSrc" w h maxWidth maxHeight quality]
      show ?thesis by (auto simp: Let_def split: prod.splits)
    next
      case OnError
      with body(2) thenResolve_resolves [of imageSrc] show ?thesis
        by (auto simp: Let_def split: if_splits image_event.splits bind_splits)
    qed
    done
  then show ?thesis by simp
qed

text \<open>The first request loads: the promise settles as the \<open>load\<close> handler decides.\<close>

lemma compressImage_loaded:
  assumes "loadImage b s (crossOriginAnonymous b s) k = OnLoad w h"
  shows "compressImage b k s mw mh q =
           Some (fst (onload b s (crossOriginAnonymous b s) w h mw mh q),
                 ImageRequest s (crossOriginAnonymous b s) #
                 snd (onload b s (crossOriginAnonymous b s) w h mw mh q))"
  by (subst compressImage.simps) (simp add: assms Let_def split: prod.split)

text \<open>A load error without the anonymous mode resolves with the source.\<close>

lemma compressImage_load_error:
  assumes "\<not> crossOriginAnonymous b s" and "loadImage b s False k = OnError"
  shows "compressImage b k s mw mh q = Some (Resolved s, [ImageRequest s False, ConsoleWarn])"
  by (subst compressImage.simps) (simp add: assms)

text \<open>A load error with the mode, and a second one without it, resolves with the source.\<close>

lemma compressImage_both_requests_fail:
  assumes "crossOriginAnonymous b s"
    and "loadImage b s True k = OnError" and "loadImage b s False (k + 1) = OnError"
  shows "compressImage b k s mw mh q =
           Some (Resolved s, [ImageRequest s True, ImageRequest s False, ConsoleWarn])"
  using assms by (subst compressImage.simps) simp

text \<open>A throw in the canvas code is caught and resolves with the source.\<close>

lemma compressImage_canvas_throws:
  assumes "loadImage b s (crossOriginAnonymous b s) k = OnLoad w h"
    and "\<not> keepOriginal w h mw mh"
    and "canvas b (encodeJob s (crossOriginAnonymous b s) w h mw mh q) = None"
  shows "\<exists>es. compressImage b k s mw mh q = Some (Resolved s, es)"
  using assms(2,3) by (simp add: compressImage_loaded [OF assms(1)] onload_def Let_def)

text \<open>
  A load error with the mode, then a successful request without it: the function calls
  itself with the same arguments, and the request counter has advanced by two.
\<close>

lemma compressImage_retry:
  assumes "crossOriginAnonymous b s"
    and "loadImage b s True k = OnError" and "loadImage b s False (k + 1) = OnLoad w h"
  shows "compressImage b k s mw mh q =
           Option.bind (compressImage b (k + 2) s mw mh q)
             (\<lambda>(r, es). Some (thenResolve s r, ImageRequest s True # ImageRequest s False # es))"
  using assms by (subst compressImage.simps) simp

text \<open>
  The recursive call decides on the mode again from the same source, so it sets the mode
  again. If every request with the mode fails and every request without it loads, the
  promise never settles.
\<close>

lemma compressImage_retry_loop:
  assumes anon: "crossOriginAnonymous b s"
    and fails: "\<And>j. loadImage b s True j = OnError"
    and loads: "\<And>j. loadImage b s False j \<noteq> OnError"
  shows "compressImage b k s mw mh q = None"
proof (cases "compressImage b k s mw mh q")
  case None
  then show ?thesis .
next
  case (Some y)
  have "crossOriginAnonymous b s \<longrightarrow> (\<forall>j. loadImage b s True j = OnError) \<longrightarrow>
        (\<forall>j. loadImage b s False j \<noteq> OnError) \<longrightarrow> False"
    apply (rule compressImage.raw_induct
        [where P = "\<lambda>b k s mw mh q y. crossOriginAnonymous b s \<longrightarrow>
           (\<forall>j. loadImage b s True j = OnError) \<longrightarrow>
           (\<forall>j. loadImage b s False j \<noteq> OnError) \<longrightarrow> False", OF _ Some])
    subgoal premises body for f b k imageSrc maxWidth maxHeight quality y
    proof (intro impI)
      assume a: "crossOriginAnonymous b imageSrc"
        and e: "\<forall>j. loadImage b imageSrc True j = OnError"
        and l: "\<forall>j. loadImage b imageSrc False j \<noteq> OnError"
      from l obtain w h where wh: "loadImage b imageSrc False (k + 1) = OnLoad w h"
        by (cases "loadImage b imageSrc False (k + 1)") auto
      from body(2) a e wh
      obtain y' where "f b (k + 2) imageSrc maxWidth maxHeight quality = Some y'"
        by (auto simp: Let_def split: bind_splits)
      from body(1) [OF this] a e l show False by blast
    qed
    done
  then show ?thesis using assms by blast
qed

text \<open>
  The anonymous mode is set only for a source that contains \<open>://\<close> and does not begin
  with the page's protocol and host.
\<close>

lemma crossOriginAnonymous_only_absolute_foreign:
  assumes "crossOriginAnonymous b s"
  shows "includes_str s ''://'' \<and> \<not> startsWith s (location_protocol b @ ''//'' @ location_host b)"
  using assms by (simp add: crossOriginAnonymous_def)

lemma crossOriginAnonymous_cdn:
  "crossOriginAnonymous (staticBrowser e1 e2 d) (''https://cdn.example/'' @ rest)"
  by (simp add: crossOriginAnonymous_def staticBrowser_def startsWith_def)

subsection \<open>Images that exceed a bound\<close>

text \<open>
  The request loads an image that exceeds a bound: the canvas is asked for a JPEG at
  the given quality, with the size of lines 50 to 62.
\<close>

lemma compressImage_resized:
  assumes "loadImage b s (crossOriginAnonymous b s) k = OnLoad w h"
    and "shouldResize w h mw mh"
    and "scaledSize w h mw mh = (cw, ch)"
  shows "compressImage b k s mw mh q =
           Some (case canvas b \<lparr>image = s, anonymous = crossOriginAnonymous b s,
                                 canvas_width = cw, canvas_height = ch,
                                 outputFormat = JPEG, outputQuality = Some q\<rparr> of
                   Some u \<Rightarrow> Resolved u
                 | None \<Rightarrow> Resolved s,
                 ImageRequest s (crossOriginAnonymous b s) #
                 CanvasEncode \<lparr>image = s, anonymous = crossOriginAnonymous b s,
                                canvas_width = cw, canvas_height = ch,
                                outputFormat = JPEG, outputQuality = Some q\<rparr> #
                 (case canvas b \<lparr>image = s, anonymous = crossOriginAnonymous b s,
                                  canvas_width = cw, canvas_height = ch,
                                  outputFormat = JPEG, outputQuality = Some q\<rparr> of
                    Some u \<Rightarrow> []
                  | None \<Rightarrow> [ConsoleWarn]))"
  using assms(2,3)
  by (simp add: compressImage_loaded [OF assms(1)] onload_def keepOriginal_def encodeJob_def
      chooseFormat_def Let_def split: option.split)




text \<open>
  C7. Under the same conditions, when a dimension is set to its bound the other one is
  the original dimension times the ratio of the clamped dimension to its original
  value, up to rounding: the number given to the canvas is within \<open>3 / 2 ^ 53\<close> of that
  product, relatively (two roundings to a double), and the size the canvas reads is
  that number truncated, so less than one pixel below it. When no dimension is set to
  its bound the image keeps its width and height.
\<close>

theorem compressImage_preserves_aspect_ratio:
  assumes "loadImage b s (crossOriginAnonymous b s) k = OnLoad w h"
    and "shouldResize w h mw mh"
    and "1 \<le> mw" and "mw \<le> 2147483647" and "1 \<le> mh" and "mh \<le> 2147483647"
    and "w < 2 ^ 32" and "h < 2 ^ 32"
  shows "\<exists>w' h' r rest.
           compressImage b k s mw mh q =
             Some (r, ImageRequest s (crossOriginAnonymous b s) #
                      CanvasEncode \<lparr>image = s, anonymous = crossOriginAnonymous b s,
                                     canvas_width = Some w', canvas_height = Some h',
                                     outputFormat = JPEG, outputQuality = Some q\<rparr> # rest) \<and>
           (\<forall>j. CanvasEncode j \<notin> set rest) \<and>
           (let cw = canvasSize 300 (Some w'); ch = canvasSize 150 (Some h');
                X = of_nat h * (w' / of_nat w); Y = of_nat w * (h' / of_nat h)
            in (h < w \<and> mw < of_nat w \<longrightarrow>
                  w' = mw \<and> cw = nat \<lfloor>mw\<rfloor> \<and>
                  \<bar>h' - X\<bar> \<le> X * (3 / 2 ^ 53) \<and>
                  X * (1 - 3 / 2 ^ 53) - 1 < of_nat ch \<and> of_nat ch \<le> X * (1 + 3 / 2 ^ 53)) \<and>
               (\<not> h < w \<and> mh < of_nat h \<longrightarrow>
                  h' = mh \<and> ch = nat \<lfloor>mh\<rfloor> \<and>
                  \<bar>w' - Y\<bar> \<le> Y * (3 / 2 ^ 53) \<and>
                  Y * (1 - 3 / 2 ^ 53) - 1 < of_nat cw \<and> of_nat cw \<le> Y * (1 + 3 / 2 ^ 53)) \<and>
               (\<not> (h < w \<and> mw < of_nat w) \<and> \<not> (\<not> h < w \<and> mh < of_nat h) \<longrightarrow>
                  w' = of_nat w \<and> h' = of_nat h \<and> cw = w \<and> ch = h))"
proof -
  from scaledSize_resized [OF assms(2-8)]
  obtain w' h' where sz: "scaledSize w h mw mh = (Some w', Some h')"
    and rng: "0 \<le> w'" "w' < 2 ^ 31" "0 \<le> h'" "h' < 2 ^ 31"
    and cw: "h < w \<and> mw < of_nat w \<longrightarrow>
              w' = mw \<and> js_div (js_mul (of_nat h) mw) (of_nat w) = Some h' \<and> h' \<le> w' \<and>
              \<bar>h' - of_nat h * mw / of_nat w\<bar> \<le> of_nat h * mw / of_nat w * (3 / 2 ^ 53)"
    and ch: "\<not> h < w \<and> mh < of_nat h \<longrightarrow>
              h' = mh \<and> js_div (js_mul (of_nat w) mh) (of_nat h) = Some w' \<and>
              (w < h \<longrightarrow> w' \<le> h') \<and> w' \<le> h' * (1 + 3 / 2 ^ 53) \<and>
              \<bar>w' - of_nat w * mh / of_nat h\<bar> \<le> of_nat w * mh / of_nat h * (3 / 2 ^ 53)"
    and un: "\<not> (h < w \<and> mw < of_nat w) \<and> \<not> (\<not> h < w \<and> mh < of_nat h) \<longrightarrow>
              w' = of_nat w \<and> h' = of_nat h"
    by blast
  have px: "canvasSize 300 (Some w') = nat \<lfloor>w'\<rfloor>" "canvasSize 150 (Some h') = nat \<lfloor>h'\<rfloor>"
    using rng by (simp_all add: canvasSize_floor)
  have trunc: "x - 1 < of_nat (nat \<lfloor>x\<rfloor>) \<and> of_nat (nat \<lfloor>x\<rfloor>) \<le> x" if "0 \<le> x" for x :: rat
  proof -
    have "(of_nat (nat \<lfloor>x\<rfloor>) :: rat) = of_int \<lfloor>x\<rfloor>" using that by simp
    then show ?thesis using floor_correct [of x] by simp
  qed
  have a: "w' = mw \<and> nat \<lfloor>w'\<rfloor> = nat \<lfloor>mw\<rfloor> \<and>
      \<bar>h' - of_nat h * (w' / of_nat w)\<bar> \<le> of_nat h * (w' / of_nat w) * (3 / 2 ^ 53) \<and>
      of_nat h * (w' / of_nat w) * (1 - 3 / 2 ^ 53) - 1 < of_nat (nat \<lfloor>h'\<rfloor>) \<and>
      of_nat (nat \<lfloor>h'\<rfloor>) \<le> of_nat h * (w' / of_nat w) * (1 + 3 / 2 ^ 53)"
    if c: "h < w \<and> mw < of_nat w"
  proof -
    define X where "X = of_nat h * (w' / of_nat w)"
    from c cw have w: "w' = mw" and e: "\<bar>h' - X\<bar> \<le> X * (3 / 2 ^ 53)"
      by (simp_all add: X_def)
    define u where "u = X * (3 / 2 ^ 53)"
    define T :: rat where "T = of_nat (nat \<lfloor>h'\<rfloor>)"
    have u: "X * (1 - 3 / 2 ^ 53) = X - u" "X * (1 + 3 / 2 ^ 53) = X + u"
      by (simp_all add: u_def algebra_simps)
    have t: "h' - 1 < T" "T \<le> h'" unfolding T_def using trunc [OF rng(3)] by blast+
    have "X - u \<le> h'" "h' \<le> X + u"
      using abs_diff_le_D [OF e] by (simp_all add: u_def)
    with t have "X - u - 1 < T" "T \<le> X + u" by linarith+
    then have "X * (1 - 3 / 2 ^ 53) - 1 < T" "T \<le> X * (1 + 3 / 2 ^ 53)"
      by (simp_all only: u)
    with w e show ?thesis unfolding X_def T_def by simp
  qed
  have b: "h' = mh \<and> nat \<lfloor>h'\<rfloor> = nat \<lfloor>mh\<rfloor> \<and>
      \<bar>w' - of_nat w * (h' / of_nat h)\<bar> \<le> of_nat w * (h' / of_nat h) * (3 / 2 ^ 53) \<and>
      of_nat w * (h' / of_nat h) * (1 - 3 / 2 ^ 53) - 1 < of_nat (nat \<lfloor>w'\<rfloor>) \<and>
      of_nat (nat \<lfloor>w'\<rfloor>) \<le> of_nat w * (h' / of_nat h) * (1 + 3 / 2 ^ 53)"
    if c: "\<not> h < w \<and> mh < of_nat h"
  proof -
    define Y where "Y = of_nat w * (h' / of_nat h)"
    from c ch have w: "h' = mh" and e: "\<bar>w' - Y\<bar> \<le> Y * (3 / 2 ^ 53)"
      by (simp_all add: Y_def)
    define u where "u = Y * (3 / 2 ^ 53)"
    define T :: rat where "T = of_nat (nat \<lfloor>w'\<rfloor>)"
    have u: "Y * (1 - 3 / 2 ^ 53) = Y - u" "Y * (1 + 3 / 2 ^ 53) = Y + u"
      by (simp_all add: u_def algebra_simps)
    have t: "w' - 1 < T" "T \<le> w'" unfolding T_def using trunc [OF rng(1)] by blast+
    have "Y - u \<le> w'" "w' \<le> Y + u"
      using abs_diff_le_D [OF e] by (simp_all add: u_def)
    with t have "Y - u - 1 < T" "T \<le> Y + u" by linarith+
    then have "Y * (1 - 3 / 2 ^ 53) - 1 < T" "T \<le> Y * (1 + 3 / 2 ^ 53)"
      by (simp_all only: u)
    with w e show ?thesis unfolding Y_def T_def by simp
  qed
  have c: "w' = of_nat w \<and> h' = of_nat h \<and> nat \<lfloor>w'\<rfloor> = w \<and> nat \<lfloor>h'\<rfloor> = h"
    if "\<not> (h < w \<and> mw < of_nat w) \<and> \<not> (\<not> h < w \<and> mh < of_nat h)"
    using that un by simp
  let ?job = "\<lparr>image = s, anonymous = crossOriginAnonymous b s,
                 canvas_width = Some w', canvas_height = Some h',
                 outputFormat = JPEG, outputQuality = Some q\<rparr>"
  let ?r = "case canvas b ?job of Some u \<Rightarrow> Resolved u | None \<Rightarrow> Resolved s"
  let ?rest = "case canvas b ?job of Some u \<Rightarrow> [] | None \<Rightarrow> [ConsoleWarn]"
  have run: "compressImage b k s mw mh q =
      Some (?r, ImageRequest s (crossOriginAnonymous b s) # CanvasEncode ?job # ?rest)"
    by (rule compressImage_resized [OF assms(1,2) sz])
  have none: "\<forall>j. CanvasEncode j \<notin> set ?rest" by (simp split: option.split)
  show ?thesis
    apply (rule exI [of _ w'], rule exI [of _ h'], rule exI [of _ ?r], rule exI [of _ ?rest])
    apply (intro conjI)
    subgoal by (rule run)
    subgoal by (rule none)
    subgoal using a b c by (simp only: Let_def px) blast
    done
qed

theorem compressImage_preserves_aspect_ratio_witness:
  "loadImage (staticBrowser OnError (OnLoad 2000 3000) None) ''photos/tall.jpg''
     (crossOriginAnonymous (staticBrowser OnError (OnLoad 2000 3000) None) ''photos/tall.jpg'') 0
     = OnLoad 2000 3000 \<and>
   shouldResize 2000 3000 1920 1000 \<and>
   (1::rat) \<le> 1920 \<and> (1920::rat) \<le> 2147483647 \<and> (1::rat) \<le> 1000 \<and> (1000::rat) \<le> 2147483647 \<and>
   (2000::nat) < 2 ^ 32 \<and> (3000::nat) < 2 ^ 32 \<and>
   compressImage (staticBrowser OnError (OnLoad 2000 3000) None) 0
     ''photos/tall.jpg'' 1920 1000 (4 / 5)
     = Some (Resolved ''photos/tall.jpg'',
         [ImageRequest ''photos/tall.jpg'' False,
          CanvasEncode \<lparr>image = ''photos/tall.jpg'', anonymous = False,
            canvas_width = Some (5864062014805333 / 8796093022208),
            canvas_height = Some 1000,
            outputFormat = JPEG, outputQuality = Some (4 / 5)\<rparr>,
          ConsoleWarn]) \<and>
   canvasSize 300 (Some (5864062014805333 / 8796093022208)) = 666 \<and>
   canvasSize 150 (Some 1000) = 1000 \<and>
   \<bar>5864062014805333 / 8796093022208 - 2000 * (1000 / 3000)\<bar>
     \<le> 2000 * (1000 / 3000) * (3 / 2 ^ 53 :: rat)"
proof -
  let ?b = "staticBrowser OnError (OnLoad 2000 3000) None"
  have na: "\<not> crossOriginAnonymous ?b ''photos/tall.jpg''"
    by (simp add: crossOriginAnonymous_def startsWith_def)
  then have ld: "loadImage ?b ''photos/tall.jpg'' (crossOriginAnonymous ?b ''photos/tall.jpg'') 0
      = OnLoad 2000 3000"
    by (simp add: staticBrowser_def)
  have sr: "shouldResize 2000 3000 1920 1000" by (simp add: shouldResize_def)
  have sz: "scaledSize 2000 3000 1920 1000 = (Some (5864062014805333 / 8796093022208), Some 1000)"
    by (simp add: scaledSize_def shouldResize_def js_div_def js_mul_def nearestDouble_def
        exponentOf_def roundHalfEven_def Let_def)
  have run: "compressImage ?b 0 ''photos/tall.jpg'' 1920 1000 (4 / 5)
     = Some (Resolved ''photos/tall.jpg'',
         [ImageRequest ''photos/tall.jpg'' False,
          CanvasEncode \<lparr>image = ''photos/tall.jpg'', anonymous = False,
            canvas_width = Some (5864062014805333 / 8796093022208),
            canvas_height = Some 1000,
            outputFormat = JPEG, outputQuality = Some (4 / 5)\<rparr>,
          ConsoleWarn])"
    using compressImage_resized [OF ld sr sz, of "4 / 5"] na by (simp add: staticBrowser_def)
  have px: "canvasSize 300 (Some (5864062014805333 / 8796093022208)) = 666"
    "canvasSize 150 (Some 1000) = 1000"
    by (simp_all add: canvasSize_def toUnsignedLong_def Let_def)
  from compressImage_preserves_aspect_ratio
    [OF ld sr, of "4 / 5"] ld sr run px
  show ?thesis by simp
qed

subsection \<open>Small images\<close>

text \<open>
  C5. When the request loads an image whose width and height are within \<open>maxWidth\<close> and
  \<open>maxHeight\<close> and whose area is below 500000, the \<open>load\<close> handler resolves with the
  source string itself, and the run consists of that one image request: the canvas is
  not used.
\<close>

theorem compressImage_small_image_unchanged:
  assumes "loadImage b s (crossOriginAnonymous b s) k = OnLoad w h"
    and "of_nat w \<le> mw" and "of_nat h \<le> mh" and "w * h < 500000"
  shows "onload b s (crossOriginAnonymous b s) w h mw mh q = (Resolved s, []) \<and>
         compressImage b k s mw mh q =
           Some (Resolved s, [ImageRequest s (crossOriginAnonymous b s)])"
proof -
  have "keepOriginal w h mw mh"
    using assms(2-4) by (simp add: keepOriginal_def shouldResize_def)
  then have "onload b s (crossOriginAnonymous b s) w h mw mh q = (Resolved s, [])"
    by (simp add: onload_def)
  then show ?thesis
    by (simp add: compressImage_loaded [OF assms(1)])
qed

theorem compressImage_small_image_unchanged_witness:
  "loadImage (staticBrowser OnError (OnLoad 640 480) None) ''photos/cat.jpg''
     (crossOriginAnonymous (staticBrowser OnError (OnLoad 640 480) None) ''photos/cat.jpg'') 0
     = OnLoad 640 480 \<and>
   (of_nat 640 :: rat) \<le> 1920 \<and> (of_nat 480 :: rat) \<le> 1920 \<and> (640::nat) * 480 < 500000 \<and>
   compressImage (staticBrowser OnError (OnLoad 640 480) None) 0 ''photos/cat.jpg'' 1920 1920 (4 / 5)
     = Some (Resolved ''photos/cat.jpg'', [ImageRequest ''photos/cat.jpg'' False])"
  using compressImage_small_image_unchanged
    [of "staticBrowser OnError (OnLoad 640 480) None" "''photos/cat.jpg''" 0 640 480 1920 1920 "4 / 5"]
  by (simp add: staticBrowser_def crossOriginAnonymous_def startsWith_def)

subsection \<open>Large images within the bounds\<close>

text \<open>
  C10. When the request loads an image that is within \<open>maxWidth\<close> and \<open>maxHeight\<close> but
  has an area of at least 500000, the canvas gets the image's own width and height, the
  format is PNG without a quality when the lower-cased source contains \<open>.png\<close> and JPEG
  at the given quality otherwise, and the promise resolves with what the canvas returns
  (with the source if the canvas throws).
\<close>

theorem compressImage_large_image_same_size:
  assumes "loadImage b s (crossOriginAnonymous b s) k = OnLoad w h"
    and "of_nat w \<le> mw" and "of_nat h \<le> mh" and "500000 \<le> w * h"
  shows "let png = includes_str (toLowerCase s) ''.png'';
             job = \<lparr>image = s, anonymous = crossOriginAnonymous b s,
                    canvas_width = Some (of_nat w), canvas_height = Some (of_nat h),
                    outputFormat = (if png then PNG else JPEG),
                    outputQuality = (if png then None else Some q)\<rparr>
         in compressImage b k s mw mh q =
              Some (case canvas b job of
                      Some u \<Rightarrow> (Resolved u, [ImageRequest s (crossOriginAnonymous b s), CanvasEncode job])
                    | None \<Rightarrow> (Resolved s, [ImageRequest s (crossOriginAnonymous b s), CanvasEncode job,
                                ConsoleWarn]))"
proof -
  have nr: "\<not> shouldResize w h mw mh"
    using assms(2,3) by (simp add: shouldResize_def)
  then have nk: "\<not> keepOriginal w h mw mh"
    using assms(4) by (simp add: keepOriginal_def)
  have sz: "scaledSize w h mw mh = (Some (of_nat w), Some (of_nat h))"
    using nr by (simp add: scaledSize_def)
  show ?thesis
    using nr nk sz
    by (simp add: compressImage_loaded [OF assms(1)] onload_def encodeJob_def chooseFormat_def
        Let_def split: option.split)
qed

theorem compressImage_large_image_same_size_witness:
  "loadImage (staticBrowser OnError (OnLoad 1000 800) (Some ''data:image/jpeg;base64,AA''))
     ''photos/cat.jpg''
     (crossOriginAnonymous (staticBrowser OnError (OnLoad 1000 800) (Some ''data:image/jpeg;base64,AA''))
        ''photos/cat.jpg'') 0 = OnLoad 1000 800 \<and>
   (of_nat 1000 :: rat) \<le> 1920 \<and> (of_nat 800 :: rat) \<le> 1920 \<and> (500000::nat) \<le> 1000 * 800 \<and>
   compressImage (staticBrowser OnError (OnLoad 1000 800) (Some ''data:image/jpeg;base64,AA'')) 0
     ''photos/cat.jpg'' 1920 1920 (4 / 5)
     = Some (Resolved ''data:image/jpeg;base64,AA'',
         [ImageRequest ''photos/cat.jpg'' False,
          CanvasEncode \<lparr>image = ''photos/cat.jpg'', anonymous = False,
            canvas_width = Some 1000, canvas_height = Some 800,
            outputFormat = JPEG, outputQuality = Some (4 / 5)\<rparr>])"
  using compressImage_large_image_same_size
    [of "staticBrowser OnError (OnLoad 1000 800) (Some ''data:image/jpeg;base64,AA'')"
        "''photos/cat.jpg''" 0 1000 800 1920 1920 "4 / 5"]
  by (simp add: staticBrowser_def crossOriginAnonymous_def startsWith_def
      toLowerCase_def toLowerCase_char_def)

subsection \<open>The output format\<close>

text \<open>
  Line 82 tests whether the lower-cased source contains \<open>.png\<close> anywhere, so a source
  that does not end in \<open>.png\<close> can be encoded as PNG: a 1000 by 800 image at
  \<open>covers/front.png.jpg\<close> is within the bounds and is encoded as PNG. The other half of
  the test is the flag of line 41, not whether the size was changed: a 1000 by 900 image
  at \<open>shots/a.png\<close> with bounds 1920 and 800 goes to the canvas at 1000 by 900, its own
  size, and is encoded as JPEG.
\<close>

theorem compressImage_png_not_by_suffix:
  "\<not> endsWith ''covers/front.png.jpg'' ''.png'' \<and>
   \<not> endsWith (toLowerCase ''covers/front.png.jpg'') ''.png'' \<and>
   \<not> shouldResize 1000 800 1920 1920 \<and>
   compressImage (staticBrowser OnError (OnLoad 1000 800) (Some ''data:image/png;base64,AA'')) 0
     ''covers/front.png.jpg'' 1920 1920 (4 / 5)
     = Some (Resolved ''data:image/png;base64,AA'',
         [ImageRequest ''covers/front.png.jpg'' False,
          CanvasEncode \<lparr>image = ''covers/front.png.jpg'', anonymous = False,
            canvas_width = Some 1000, canvas_height = Some 800,
            outputFormat = PNG, outputQuality = None\<rparr>]) \<and>
   endsWith ''shots/a.png'' ''.png'' \<and>
   compressImage (staticBrowser OnError (OnLoad 1000 900) (Some ''data:image/jpeg;base64,DD'')) 0
     ''shots/a.png'' 1920 800 (4 / 5)
     = Some (Resolved ''data:image/jpeg;base64,DD'',
         [ImageRequest ''shots/a.png'' False,
          CanvasEncode \<lparr>image = ''shots/a.png'', anonymous = False,
            canvas_width = Some 1000, canvas_height = Some 900,
            outputFormat = JPEG, outputQuality = Some (4 / 5)\<rparr>])"
proof -
  let ?b = "staticBrowser OnError (OnLoad 1000 800) (Some ''data:image/png;base64,AA'')"
  let ?c = "staticBrowser OnError (OnLoad 1000 900) (Some ''data:image/jpeg;base64,DD'')"
  have "loadImage ?b ''covers/front.png.jpg''
      (crossOriginAnonymous ?b ''covers/front.png.jpg'') 0 = OnLoad 1000 800"
    by (simp add: staticBrowser_def crossOriginAnonymous_def startsWith_def)
  from compressImage_loaded [OF this, of 1920 1920 "4 / 5"]
  have first: "\<not> endsWith ''covers/front.png.jpg'' ''.png'' \<and>
   \<not> endsWith (toLowerCase ''covers/front.png.jpg'') ''.png'' \<and>
   \<not> shouldResize 1000 800 1920 1920 \<and>
   compressImage ?b 0 ''covers/front.png.jpg'' 1920 1920 (4 / 5)
     = Some (Resolved ''data:image/png;base64,AA'',
         [ImageRequest ''covers/front.png.jpg'' False,
          CanvasEncode \<lparr>image = ''covers/front.png.jpg'', anonymous = False,
            canvas_width = Some 1000, canvas_height = Some 800,
            outputFormat = PNG, outputQuality = None\<rparr>])"
    by (simp add: staticBrowser_def crossOriginAnonymous_def startsWith_def endsWith_def
        suffix_to_prefix onload_def keepOriginal_def shouldResize_def encodeJob_def
        scaledSize_def chooseFormat_def toLowerCase_def toLowerCase_char_def Let_def)
  have na: "\<not> crossOriginAnonymous ?c ''shots/a.png''"
    by (simp add: crossOriginAnonymous_def startsWith_def)
  then have ld: "loadImage ?c ''shots/a.png'' (crossOriginAnonymous ?c ''shots/a.png'') 0
      = OnLoad 1000 900"
    by (simp add: staticBrowser_def)
  have sr: "shouldResize 1000 900 1920 800" by (simp add: shouldResize_def)
  have sz: "scaledSize 1000 900 1920 800 = (Some 1000, Some 900)"
    by (simp add: scaledSize_def shouldResize_def)
  from compressImage_resized [OF ld sr sz, of "4 / 5"] na
  have second: "endsWith ''shots/a.png'' ''.png'' \<and>
   compressImage ?c 0 ''shots/a.png'' 1920 800 (4 / 5)
     = Some (Resolved ''data:image/jpeg;base64,DD'',
         [ImageRequest ''shots/a.png'' False,
          CanvasEncode \<lparr>image = ''shots/a.png'', anonymous = False,
            canvas_width = Some 1000, canvas_height = Some 900,
            outputFormat = JPEG, outputQuality = Some (4 / 5)\<rparr>])"
    by (simp add: staticBrowser_def endsWith_def suffix_to_prefix)
  from first second show ?thesis by simp
qed

text \<open>
  C2, as the code has it. Whenever the request loads an image that is not returned as
  it is, \<open>compressImage\<close> asks the canvas exactly once: for PNG without a quality when the
  lower-cased source contains \<open>.png\<close> and neither the width nor the height of the image
  exceeds its bound, and for JPEG at the given quality in every other case.
\<close>

theorem compressImage_output_format:
  assumes "loadImage b s (crossOriginAnonymous b s) k = OnLoad w h"
    and "\<not> keepOriginal w h mw mh"
  shows "\<exists>job r rest.
           compressImage b k s mw mh q =
             Some (r, ImageRequest s (crossOriginAnonymous b s) # CanvasEncode job # rest) \<and>
           (\<forall>j. CanvasEncode j \<notin> set rest) \<and>
           (outputFormat job = PNG \<longleftrightarrow>
              includes_str (toLowerCase s) ''.png'' \<and> of_nat w \<le> mw \<and> of_nat h \<le> mh) \<and>
           (outputFormat job = PNG \<longrightarrow> outputQuality job = None) \<and>
           (outputFormat job \<noteq> PNG \<longrightarrow> outputFormat job = JPEG \<and> outputQuality job = Some q)"
proof -
  let ?job = "encodeJob s (crossOriginAnonymous b s) w h mw mh q"
  let ?r = "case canvas b ?job of Some u \<Rightarrow> Resolved u | None \<Rightarrow> Resolved s"
  let ?rest = "case canvas b ?job of Some u \<Rightarrow> [] | None \<Rightarrow> [ConsoleWarn]"
  have run: "compressImage b k s mw mh q =
      Some (?r, ImageRequest s (crossOriginAnonymous b s) # CanvasEncode ?job # ?rest)"
    using assms(2)
    by (simp add: compressImage_loaded [OF assms(1)] onload_def Let_def split: option.split)
  have none: "\<forall>j. CanvasEncode j \<notin> set ?rest" by (simp split: option.split)
  have fmt: "(outputFormat ?job = PNG \<longleftrightarrow>
              includes_str (toLowerCase s) ''.png'' \<and> of_nat w \<le> mw \<and> of_nat h \<le> mh) \<and>
           (outputFormat ?job = PNG \<longrightarrow> outputQuality ?job = None) \<and>
           (outputFormat ?job \<noteq> PNG \<longrightarrow> outputFormat ?job = JPEG \<and> outputQuality ?job = Some q)"
    by (auto simp: encodeJob_def chooseFormat_def shouldResize_def Let_def)
  from run none fmt show ?thesis by blast
qed

theorem compressImage_output_format_witness:
  "loadImage (staticBrowser OnError (OnLoad 3000 2000) None) ''icons/Map.PNG''
     (crossOriginAnonymous (staticBrowser OnError (OnLoad 3000 2000) None) ''icons/Map.PNG'') 0
     = OnLoad 3000 2000 \<and>
   \<not> keepOriginal 3000 2000 1920 1920 \<and>
   includes_str (toLowerCase ''icons/Map.PNG'') ''.png'' \<and> \<not> (of_nat 3000 \<le> (1920::rat)) \<and>
   compressImage (staticBrowser OnError (OnLoad 3000 2000) None) 0 ''icons/Map.PNG'' 1920 1920 (4 / 5)
     = Some (Resolved ''icons/Map.PNG'',
         [ImageRequest ''icons/Map.PNG'' False,
          CanvasEncode \<lparr>image = ''icons/Map.PNG'', anonymous = False,
            canvas_width = Some 1920, canvas_height = Some 1280,
            outputFormat = JPEG, outputQuality = Some (4 / 5)\<rparr>,
          ConsoleWarn])"
proof -
  let ?b = "staticBrowser OnError (OnLoad 3000 2000) None"
  have na: "\<not> crossOriginAnonymous ?b ''icons/Map.PNG''"
    by (simp add: crossOriginAnonymous_def startsWith_def)
  then have ld: "loadImage ?b ''icons/Map.PNG'' (crossOriginAnonymous ?b ''icons/Map.PNG'') 0
      = OnLoad 3000 2000"
    by (simp add: staticBrowser_def)
  have nk: "\<not> keepOriginal 3000 2000 1920 1920"
    by (simp add: keepOriginal_def shouldResize_def)
  have sr: "shouldResize 3000 2000 1920 1920" by (simp add: shouldResize_def)
  have sz: "scaledSize 3000 2000 1920 1920 = (Some 1920, Some 1280)"
    by (simp add: scaledSize_def shouldResize_def js_div_def js_mul_def nearestDouble_def
        exponentOf_def roundHalfEven_def Let_def)
  have run: "compressImage ?b 0 ''icons/Map.PNG'' 1920 1920 (4 / 5)
     = Some (Resolved ''icons/Map.PNG'',
         [ImageRequest ''icons/Map.PNG'' False,
          CanvasEncode \<lparr>image = ''icons/Map.PNG'', anonymous = False,
            canvas_width = Some 1920, canvas_height = Some 1280,
            outputFormat = JPEG, outputQuality = Some (4 / 5)\<rparr>,
          ConsoleWarn])"
    using compressImage_resized [OF ld sr sz, of "4 / 5"] na by (simp add: staticBrowser_def)
  have inc: "includes_str (toLowerCase ''icons/Map.PNG'') ''.png''"
    by (simp add: toLowerCase_def toLowerCase_char_def)
  from compressImage_output_format [OF ld nk, of "4 / 5"] ld nk run inc
  show ?thesis by simp
qed

subsection \<open>A failing request with the anonymous mode\<close>

text \<open>
  C3. The page is \<open>https://shop.example\<close>, the image is on another host that refuses
  requests with the anonymous mode and serves requests without it. The source is
  absolute and foreign, so the mode is set, the request fails, the second request
  without the mode loads, and the function calls itself with the same arguments. The
  promise never settles, so it does not resolve with the source.
\<close>

theorem compressImage_cross_origin_failure_never_settles:
  "crossOriginAnonymous (staticBrowser OnError (OnLoad 1200 900) (Some ''data:image/jpeg;base64,AA''))
     ''https://cdn.example/hero.jpg'' \<and>
   compressImage (staticBrowser OnError (OnLoad 1200 900) (Some ''data:image/jpeg;base64,AA'')) 0
     ''https://cdn.example/hero.jpg'' 1920 1920 (4 / 5) = None"
proof -
  let ?b = "staticBrowser OnError (OnLoad 1200 900) (Some ''data:image/jpeg;base64,AA'')"
  have a: "crossOriginAnonymous ?b ''https://cdn.example/hero.jpg''"
    by (simp add: crossOriginAnonymous_def staticBrowser_def startsWith_def)
  have "compressImage ?b 0 ''https://cdn.example/hero.jpg'' 1920 1920 (4 / 5) = None"
    by (rule compressImage_retry_loop [OF a]) (simp_all add: staticBrowser_def)
  with a show ?thesis by simp
qed

text \<open>
  C4. On the same kind of host the requests go on without end: the promise of a small
  image never settles. On a host that refuses the first two requests with the mode and
  accepts the third, the run makes two requests without the mode before the promise
  settles, not one.
\<close>

theorem compressImage_retries_more_than_once:
  "compressImage (staticBrowser OnError (OnLoad 640 480) None) 0
     ''https://cdn.example/a.jpg'' 1920 1920 (4 / 5) = None \<and>
   compressImage
     \<lparr>location_protocol = ''https:'', location_host = ''shop.example'',
      loadImage = (\<lambda>s anon k. if anon \<and> k < 4 then OnError else OnLoad 640 480),
      canvas = (\<lambda>job. None)\<rparr> 0
     ''https://cdn.example/a.jpg'' 1920 1920 (4 / 5)
     = Some (Resolved ''https://cdn.example/a.jpg'',
         [ImageRequest ''https://cdn.example/a.jpg'' True,
          ImageRequest ''https://cdn.example/a.jpg'' False,
          ImageRequest ''https://cdn.example/a.jpg'' True,
          ImageRequest ''https://cdn.example/a.jpg'' False,
          ImageRequest ''https://cdn.example/a.jpg'' True])"
proof -
  let ?s = "''https://cdn.example/a.jpg''"
  let ?b = "staticBrowser OnError (OnLoad 640 480) None"
  let ?c = "\<lparr>location_protocol = ''https:'', location_host = ''shop.example'',
      loadImage = (\<lambda>s anon k. if anon \<and> k < 4 then OnError else OnLoad (640::nat) (480::nat)),
      canvas = (\<lambda>job::canvas_job. None :: string option)\<rparr>"
  have a: "crossOriginAnonymous ?b ?s"
    by (simp add: crossOriginAnonymous_def staticBrowser_def startsWith_def)
  have loop: "compressImage ?b 0 ?s 1920 1920 (4 / 5) = None"
    by (rule compressImage_retry_loop [OF a]) (simp_all add: staticBrowser_def)
  have c: "crossOriginAnonymous ?c ?s"
    by (simp add: crossOriginAnonymous_def startsWith_def)
  have third: "compressImage ?c 4 ?s 1920 1920 (4 / 5) = Some (Resolved ?s, [ImageRequest ?s True])"
    using compressImage_loaded [of ?c ?s 4 640 480 1920 1920 "4 / 5"] c
    by (simp add: onload_def keepOriginal_def shouldResize_def)
  have second: "compressImage ?c 2 ?s 1920 1920 (4 / 5) =
      Some (Resolved ?s, [ImageRequest ?s True, ImageRequest ?s False, ImageRequest ?s True])"
    using compressImage_retry [of ?c ?s 2 640 480 1920 1920 "4 / 5"] c third
    by (simp add: thenResolve_def)
  have first: "compressImage ?c 0 ?s 1920 1920 (4 / 5) =
      Some (Resolved ?s, [ImageRequest ?s True, ImageRequest ?s False, ImageRequest ?s True,
        ImageRequest ?s False, ImageRequest ?s True])"
    using compressImage_retry [of ?c ?s 0 640 480 1920 1920 "4 / 5"] c
      second [unfolded numeral_2_eq_2]
    by (simp add: thenResolve_def)
  from loop first show ?thesis by simp
qed

section \<open>\<open>applyImageCompression\<close>\<close>

lemma applyImageCompression_skips:
  assumes "dataset_compressed el = Some ''true'' \<or> startsWith (src el) ''data:image''"
  shows "applyImageCompression b k el opts = Some (el, [])"
  using assms by (auto simp: applyImageCompression_def Let_def)

text \<open>
  A call that goes on to \<open>compressImage\<close> and completes: the promise was resolved with
  some string, which is the element's new source, and the element is marked.
\<close>

lemma applyImageCompression_completed:
  assumes "dataset_compressed el \<noteq> Some ''true''" and "\<not> startsWith (src el) ''data:image''"
    and "applyImageCompression b k el opts = Some (el', es)"
  shows "compressImage b k (src el)
           (case opt_maxWidth opts of None \<Rightarrow> 1920 | Some v \<Rightarrow> v)
           (case opt_maxHeight opts of None \<Rightarrow> 1920 | Some v \<Rightarrow> v)
           (case opt_quality opts of None \<Rightarrow> 4 / 5 | Some v \<Rightarrow> v) = Some (Resolved (src el'), es) \<and>
         dataset_compressed el' = Some ''true'' \<and> dataset_originalSrc el' = Some (src el)"
proof -
  let ?c = "compressImage b k (src el)
           (case opt_maxWidth opts of None \<Rightarrow> 1920 | Some v \<Rightarrow> v)
           (case opt_maxHeight opts of None \<Rightarrow> 1920 | Some v \<Rightarrow> v)
           (case opt_quality opts of None \<Rightarrow> 4 / 5 | Some v \<Rightarrow> v)"
  from assms obtain r es' where c: "?c = Some (r, es')"
    by (cases ?c) (auto simp: applyImageCompression_def Let_def)
  from compressImage_never_rejects [OF c] obtain u where r: "r = Resolved u" by blast
  from assms c r show ?thesis
    by (auto simp: applyImageCompression_def Let_def split: if_splits)
qed

text \<open>
  An element whose source is a \<open>data:\<close> URL that does not begin with \<open>data:image\<close> is
  not skipped: line 141 tests for \<open>data:image\<close>. Here the image is requested, drawn and
  encoded again, and the element's source is replaced.
\<close>

theorem applyImageCompression_data_url_not_skipped:
  "startsWith ''data:IMAGE/PNG;base64,AAAA'' ''data:'' \<and>
   applyImageCompression (staticBrowser OnError (OnLoad 1000 800) (Some ''data:image/jpeg;base64,BBBB''))
     0 (freshImg ''data:IMAGE/PNG;base64,AAAA'' [] True) noOptions
   = Some (\<lparr>src = ''data:image/jpeg;base64,BBBB'', dataset_compressed = Some ''true'',
             dataset_originalSrc = Some ''data:IMAGE/PNG;base64,AAAA'',
             style_opacity = ''1'', style_transition = ''opacity 0.5s ease'',
             classList = [], complete_img = True, listeners = []\<rparr>,
           [ImageRequest ''data:IMAGE/PNG;base64,AAAA'' False,
            CanvasEncode \<lparr>image = ''data:IMAGE/PNG;base64,AAAA'', anonymous = False,
              canvas_width = Some 1000, canvas_height = Some 800,
              outputFormat = JPEG, outputQuality = Some (4 / 5)\<rparr>])"
proof -
  let ?b = "staticBrowser OnError (OnLoad 1000 800) (Some ''data:image/jpeg;base64,BBBB'')"
  let ?s = "''data:IMAGE/PNG;base64,AAAA''"
  have na: "\<not> crossOriginAnonymous ?b ?s"
    by (simp add: crossOriginAnonymous_def startsWith_def)
  then have "loadImage ?b ?s (crossOriginAnonymous ?b ?s) 0 = OnLoad 1000 800"
    by (simp add: staticBrowser_def)
  from compressImage_loaded [OF this, of 1920 1920 "4 / 5"] na
  have "compressImage ?b 0 ?s 1920 1920 (4 / 5) =
      Some (Resolved ''data:image/jpeg;base64,BBBB'',
        [ImageRequest ?s False,
         CanvasEncode \<lparr>image = ?s, anonymous = False,
           canvas_width = Some 1000, canvas_height = Some 800,
           outputFormat = JPEG, outputQuality = Some (4 / 5)\<rparr>])"
    by (simp add: staticBrowser_def onload_def keepOriginal_def shouldResize_def encodeJob_def
        scaledSize_def chooseFormat_def toLowerCase_def toLowerCase_char_def Let_def)
  then show ?thesis
    by (simp add: applyImageCompression_def freshImg_def noOptions_def startsWith_def Let_def)
qed

text \<open>
  C6, as the code has it. A second call on the element that a completed call returned
  does nothing and returns the element as it is, whatever the browser and the options;
  so does any call on an element marked compressed or whose source begins with
  \<open>data:image\<close>.
\<close>

theorem applyImageCompression_idempotent:
  "(applyImageCompression b k el opts = Some (el', es) \<longrightarrow>
      applyImageCompression b' k' el' opts' = Some (el', [])) \<and>
   (dataset_compressed el = Some ''true'' \<or> startsWith (src el) ''data:image'' \<longrightarrow>
      applyImageCompression b k el opts = Some (el, []))"
proof (intro conjI impI)
  assume first: "applyImageCompression b k el opts = Some (el', es)"
  show "applyImageCompression b' k' el' opts' = Some (el', [])"
  proof (cases "dataset_compressed el = Some ''true'' \<or> startsWith (src el) ''data:image''")
    case True
    with first have "el' = el" by (simp add: applyImageCompression_skips)
    with True show ?thesis by (simp add: applyImageCompression_skips)
  next
    case False
    with first have "dataset_compressed el' = Some ''true''"
      using applyImageCompression_completed [of el b k opts el' es] by simp
    then show ?thesis by (simp add: applyImageCompression_skips)
  qed
next
  assume "dataset_compressed el = Some ''true'' \<or> startsWith (src el) ''data:image''"
  then show "applyImageCompression b k el opts = Some (el, [])"
    by (rule applyImageCompression_skips)
qed

theorem applyImageCompression_idempotent_witness:
  "applyImageCompression (staticBrowser OnError (OnLoad 1000 800) (Some ''data:image/jpeg;base64,BBBB''))
     0 (freshImg ''photos/cat.jpg'' [] True) noOptions
   = Some (\<lparr>src = ''data:image/jpeg;base64,BBBB'', dataset_compressed = Some ''true'',
             dataset_originalSrc = Some ''photos/cat.jpg'',
             style_opacity = ''1'', style_transition = ''opacity 0.5s ease'',
             classList = [], complete_img = True, listeners = []\<rparr>,
           [ImageRequest ''photos/cat.jpg'' False,
            CanvasEncode \<lparr>image = ''photos/cat.jpg'', anonymous = False,
              canvas_width = Some 1000, canvas_height = Some 800,
              outputFormat = JPEG, outputQuality = Some (4 / 5)\<rparr>]) \<and>
   applyImageCompression (staticBrowser OnError (OnLoad 1000 800) (Some ''data:image/jpeg;base64,BBBB''))
     1 \<lparr>src = ''data:image/jpeg;base64,BBBB'', dataset_compressed = Some ''true'',
             dataset_originalSrc = Some ''photos/cat.jpg'',
             style_opacity = ''1'', style_transition = ''opacity 0.5s ease'',
             classList = [], complete_img = True, listeners = []\<rparr> noOptions
   = Some (\<lparr>src = ''data:image/jpeg;base64,BBBB'', dataset_compressed = Some ''true'',
             dataset_originalSrc = Some ''photos/cat.jpg'',
             style_opacity = ''1'', style_transition = ''opacity 0.5s ease'',
             classList = [], complete_img = True, listeners = []\<rparr>, [])"
proof -
  let ?b = "staticBrowser OnError (OnLoad 1000 800) (Some ''data:image/jpeg;base64,BBBB'')"
  let ?s = "''photos/cat.jpg''"
  let ?el' = "\<lparr>src = ''data:image/jpeg;base64,BBBB'', dataset_compressed = Some ''true'',
             dataset_originalSrc = Some ''photos/cat.jpg'',
             style_opacity = ''1'', style_transition = ''opacity 0.5s ease'',
             classList = [], complete_img = True, listeners = []\<rparr>"
  let ?es = "[ImageRequest ''photos/cat.jpg'' False,
            CanvasEncode \<lparr>image = ''photos/cat.jpg'', anonymous = False,
              canvas_width = Some 1000, canvas_height = Some 800,
              outputFormat = JPEG, outputQuality = Some (4 / 5)\<rparr>]"
  have na: "\<not> crossOriginAnonymous ?b ?s"
    by (simp add: crossOriginAnonymous_def startsWith_def)
  then have "loadImage ?b ?s (crossOriginAnonymous ?b ?s) 0 = OnLoad 1000 800"
    by (simp add: staticBrowser_def)
  from compressImage_loaded [OF this, of 1920 1920 "4 / 5"] na
  have "compressImage ?b 0 ?s 1920 1920 (4 / 5) = Some (Resolved ''data:image/jpeg;base64,BBBB'', ?es)"
    by (simp add: staticBrowser_def onload_def keepOriginal_def shouldResize_def encodeJob_def
        scaledSize_def chooseFormat_def toLowerCase_def toLowerCase_char_def Let_def)
  then have first: "applyImageCompression ?b 0 (freshImg ?s [] True) noOptions = Some (?el', ?es)"
    by (simp add: applyImageCompression_def freshImg_def noOptions_def startsWith_def Let_def)
  from applyImageCompression_idempotent
    [of ?b 0 "freshImg ?s [] True" noOptions ?el' ?es ?b 1 noOptions] first
  show ?thesis by simp
qed

text \<open>
  C9. A call that is not skipped and completes leaves the element marked compressed,
  with the source it had before stored as the original source, whatever string the
  promise was resolved with (also the unchanged source, after a load error). Every
  later call on that element, in any browser and with any options, does nothing.
\<close>

theorem applyImageCompression_marks_element:
  assumes "dataset_compressed el \<noteq> Some ''true''" and "\<not> startsWith (src el) ''data:image''"
    and "applyImageCompression b k el opts = Some (el', es)"
  shows "dataset_compressed el' = Some ''true'' \<and>
         dataset_originalSrc el' = Some (src el) \<and>
         (\<forall>b' k' opts'. applyImageCompression b' k' el' opts' = Some (el', []))"
proof -
  from applyImageCompression_completed [OF assms]
  have m: "dataset_compressed el' = Some ''true''" and o: "dataset_originalSrc el' = Some (src el)"
    by simp_all
  from m have "\<forall>b' k' opts'. applyImageCompression b' k' el' opts' = Some (el', [])"
    by (simp add: applyImageCompression_skips)
  with m o show ?thesis by simp
qed

theorem applyImageCompression_marks_element_witness:
  "dataset_compressed (freshImg ''photos/missing.jpg'' [] True) \<noteq> Some ''true'' \<and>
   \<not> startsWith (src (freshImg ''photos/missing.jpg'' [] True)) ''data:image'' \<and>
   applyImageCompression (staticBrowser OnError OnError None) 0
     (freshImg ''photos/missing.jpg'' [] True) noOptions
   = Some (\<lparr>src = ''photos/missing.jpg'', dataset_compressed = Some ''true'',
             dataset_originalSrc = Some ''photos/missing.jpg'',
             style_opacity = ''1'', style_transition = ''opacity 0.5s ease'',
             classList = [], complete_img = True, listeners = []\<rparr>,
           [ImageRequest ''photos/missing.jpg'' False, ConsoleWarn]) \<and>
   applyImageCompression (staticBrowser (OnLoad 640 480) (OnLoad 640 480) None) 7
     \<lparr>src = ''photos/missing.jpg'', dataset_compressed = Some ''true'',
             dataset_originalSrc = Some ''photos/missing.jpg'',
             style_opacity = ''1'', style_transition = ''opacity 0.5s ease'',
             classList = [], complete_img = True, listeners = []\<rparr> noOptions
   = Some (\<lparr>src = ''photos/missing.jpg'', dataset_compressed = Some ''true'',
             dataset_originalSrc = Some ''photos/missing.jpg'',
             style_opacity = ''1'', style_transition = ''opacity 0.5s ease'',
             classList = [], complete_img = True, listeners = []\<rparr>, [])"
proof -
  let ?b = "staticBrowser OnError OnError None"
  let ?s = "''photos/missing.jpg''"
  let ?el' = "\<lparr>src = ''photos/missing.jpg'', dataset_compressed = Some ''true'',
             dataset_originalSrc = Some ''photos/missing.jpg'',
             style_opacity = ''1'', style_transition = ''opacity 0.5s ease'',
             classList = [], complete_img = True, listeners = []\<rparr>"
  have na: "\<not> crossOriginAnonymous ?b ?s"
    by (simp add: crossOriginAnonymous_def startsWith_def)
  have "loadImage ?b ?s False 0 = OnError"
    by (simp add: staticBrowser_def)
  from compressImage_load_error [OF na this, of 1920 1920 "4 / 5"]
  have first: "applyImageCompression ?b 0 (freshImg ?s [] True) noOptions =
      Some (?el', [ImageRequest ?s False, ConsoleWarn])"
    by (simp add: applyImageCompression_def freshImg_def noOptions_def startsWith_def Let_def)
  have pre: "dataset_compressed (freshImg ?s [] True) \<noteq> Some ''true''"
    "\<not> startsWith (src (freshImg ?s [] True)) ''data:image''"
    by (simp_all add: freshImg_def startsWith_def)
  from applyImageCompression_marks_element [OF pre first] pre first
  show ?thesis by simp
qed

section \<open>\<open>compressAllImages\<close>\<close>




end
